theory Spec2Isabelle
  imports
    Main
    "HOL-Library.Char_ord"
    "HOL-Library.List_Lexorder"
    "HOL-Library.Product_Lexorder"
    "HOL-Library.Multiset"
begin

text \<open>
  The identifier resolution, the construction of citations, the removal of arXiv
  duplicates and the ordering of the result, as the sources \<^verbatim>\<open>utils.py\<close>,
  \<^verbatim>\<open>models.py\<close> and \<^verbatim>\<open>converter.py\<close> compute them. Functions keep the names of the
  sources, without a leading underscore. Reading and writing files, printing and timing
  are left out; \<^verbatim>\<open>urlparse\<close> of the standard library and \<^verbatim>\<open>clean_bibtex_field\<close> are
  parameters of the functions that call them.
\<close>

section \<open>Strings\<close>

text \<open>
  A Python \<^verbatim>\<open>str\<close> is modelled as a \<^typ>\<open>string\<close> of ASCII characters. The
  character classes below are the ASCII part of Python's: \<^verbatim>\<open>str.isspace\<close> and the
  pattern class \<^verbatim>\<open>\s\<close> (tab, newline, vertical tab, form feed, carriage return,
  the four separators 0x1C to 0x1F, space), \<^verbatim>\<open>\d\<close> and \<^verbatim>\<open>str.isdigit\<close> (0 to 9),
  \<^verbatim>\<open>\w\<close> (letters, digits, underscore). An optional value (\<^verbatim>\<open>Optional[str]\<close>) is an
  \<^typ>\<open>string option\<close>; Python's truth test on it holds for \<open>Some s\<close> with \<open>s \<noteq> []\<close>.
\<close>

definition is_space :: "char \<Rightarrow> bool" where
  "is_space c \<longleftrightarrow> c \<in> set [CHR 0x09, CHR 0x0A, CHR 0x0B, CHR 0x0C, CHR 0x0D,
                            CHR 0x1C, CHR 0x1D, CHR 0x1E, CHR 0x1F, CHR '' '']"

definition is_digit :: "char \<Rightarrow> bool" where
  "is_digit c \<longleftrightarrow> c \<in> set ''0123456789''"

definition lowers :: string where
  "lowers = ''abcdefghijklmnopqrstuvwxyz''"

definition uppers :: string where
  "uppers = ''ABCDEFGHIJKLMNOPQRSTUVWXYZ''"

definition is_lower :: "char \<Rightarrow> bool" where
  "is_lower c \<longleftrightarrow> c \<in> set lowers"

definition is_upper :: "char \<Rightarrow> bool" where
  "is_upper c \<longleftrightarrow> c \<in> set uppers"

definition is_word :: "char \<Rightarrow> bool" where
  "is_word c \<longleftrightarrow> is_lower c \<or> is_upper c \<or> is_digit c \<or> c = CHR ''_''"

definition lower_char :: "char \<Rightarrow> char" where
  "lower_char c = (case map_of (zip uppers lowers) c of Some l \<Rightarrow> l | None \<Rightarrow> c)"

definition upper_char :: "char \<Rightarrow> char" where
  "upper_char c = (case map_of (zip lowers uppers) c of Some u \<Rightarrow> u | None \<Rightarrow> c)"

definition lower :: "string \<Rightarrow> string" where
  "lower s = map lower_char s"

definition upper :: "string \<Rightarrow> string" where
  "upper s = map upper_char s"

definition strip :: "string \<Rightarrow> string" where
  "strip s = rev (dropWhile is_space (rev (dropWhile is_space s)))"

definition isdigit :: "string \<Rightarrow> bool" where
  "isdigit s \<longleftrightarrow> s \<noteq> [] \<and> list_all is_digit s"

definition truthy :: "string option \<Rightarrow> bool" where
  "truthy v \<longleftrightarrow> (case v of None \<Rightarrow> False | Some s \<Rightarrow> s \<noteq> [])"

definition or_empty :: "string option \<Rightarrow> string" where
  "or_empty v = (case v of None \<Rightarrow> [] | Some s \<Rightarrow> s)"


section \<open>Regular expressions\<close>

text \<open>
  The fragment of Python's \<^verbatim>\<open>re\<close> that the sources use, as a backtracking matcher.
  A match state is the text captured by group 1 so far, the character before the
  current position (\<open>None\<close> at the start of the text) and the text still to be read.
  \<open>rmatch\<close> lists the states a pattern can end in, in the order in which the
  backtracking engine tries them: a greedy repetition tries one more round before it
  tries to stop. The first state of the list is the match that \<^verbatim>\<open>re\<close> reports.
  Every repetition in the patterns of the sources has a body that reads at least one
  character, so the length of the remaining text bounds the number of rounds.
\<close>

type_synonym mstate = "string option \<times> char option \<times> string"

datatype regex =
    Lit string
  | In "char \<Rightarrow> bool"
  | NotIn "char \<Rightarrow> bool"
  | Seq regex regex
  | Rep nat "nat option" regex
  | Group regex
  | Bol
  | Eol
  | WordB

definition rest :: "mstate \<Rightarrow> string" where
  "rest st = snd (snd st)"

definition lit_eq :: "bool \<Rightarrow> char \<Rightarrow> char \<Rightarrow> bool" where
  "lit_eq ic c x \<longleftrightarrow> (if ic then lower_char c = lower_char x else c = x)"

definition in_set :: "bool \<Rightarrow> (char \<Rightarrow> bool) \<Rightarrow> char \<Rightarrow> bool" where
  "in_set ic P x \<longleftrightarrow> (if ic then P x \<or> P (lower_char x) \<or> P (upper_char x) else P x)"

fun eat :: "(char \<Rightarrow> bool) \<Rightarrow> mstate \<Rightarrow> mstate list" where
  "eat P (g, p, []) = []"
| "eat P (g, p, c # cs) = (if P c then [(g, Some c, cs)] else [])"

fun lit :: "bool \<Rightarrow> string \<Rightarrow> mstate \<Rightarrow> mstate list" where
  "lit ic [] st = [st]"
| "lit ic (c # cs) st = concat (map (lit ic cs) (eat (lit_eq ic c) st))"

fun rep :: "(mstate \<Rightarrow> mstate list) \<Rightarrow> nat \<Rightarrow> nat \<Rightarrow> nat option \<Rightarrow> mstate \<Rightarrow> mstate list" where
  "rep f 0 lo hi st = (if lo = 0 then [st] else [])"
| "rep f (Suc n) lo hi st =
     (if hi = Some 0 then [st]
      else concat (map (rep f n (lo - 1) (map_option (\<lambda>h. h - 1) hi)) (f st))
           @ (if lo = 0 then [st] else []))"

fun capture :: "mstate \<Rightarrow> mstate \<Rightarrow> mstate" where
  "capture (g, p, r) (g', p', r') = (Some (take (length r - length r') r), p', r')"

fun at_boundary :: "mstate \<Rightarrow> bool" where
  "at_boundary (g, p, r) \<longleftrightarrow>
     (case p of None \<Rightarrow> False | Some c \<Rightarrow> is_word c) \<noteq> (case r of [] \<Rightarrow> False | c # cs \<Rightarrow> is_word c)"

fun at_start :: "mstate \<Rightarrow> bool" where
  "at_start (g, p, r) \<longleftrightarrow> p = None"

fun at_end :: "mstate \<Rightarrow> bool" where
  "at_end (g, p, r) \<longleftrightarrow> r = [] \<or> r = [CHR 0x0A]"

primrec rmatch :: "regex \<Rightarrow> bool \<Rightarrow> mstate \<Rightarrow> mstate list" where
  "rmatch (Lit s) ic st = lit ic s st"
| "rmatch (In P) ic st = eat (in_set ic P) st"
| "rmatch (NotIn P) ic st = eat (\<lambda>c. \<not> in_set ic P c) st"
| "rmatch (Seq a b) ic st = concat (map (rmatch b ic) (rmatch a ic st))"
| "rmatch (Rep lo hi a) ic st = rep (rmatch a ic) (length (rest st)) lo hi st"
| "rmatch (Group a) ic st = map (capture st) (rmatch a ic st)"
| "rmatch Bol ic st = (if at_start st then [st] else [])"
| "rmatch Eol ic st = (if at_end st then [st] else [])"
| "rmatch WordB ic st = (if at_boundary st then [st] else [])"

definition seqs :: "regex list \<Rightarrow> regex" where
  "seqs rs = foldr Seq rs (Lit [])"

definition rstar :: "regex \<Rightarrow> regex" where
  "rstar r = Rep 0 None r"

definition rplus :: "regex \<Rightarrow> regex" where
  "rplus r = Rep 1 None r"

definition ropt :: "regex \<Rightarrow> regex" where
  "ropt r = Rep 0 (Some 1) r"

definition times :: "nat \<Rightarrow> regex \<Rightarrow> regex" where
  "times n r = Rep n (Some n) r"

text \<open>\<^verbatim>\<open>re.match\<close>: the pattern at the start of the text.\<close>

definition re_match :: "regex \<Rightarrow> bool \<Rightarrow> string \<Rightarrow> mstate option" where
  "re_match r ic s = (case rmatch r ic (None, None, s) of [] \<Rightarrow> None | m # ms \<Rightarrow> Some m)"

text \<open>\<^verbatim>\<open>re.search\<close>: the pattern at the leftmost position where it matches.\<close>

fun search_from :: "regex \<Rightarrow> bool \<Rightarrow> char option \<Rightarrow> string \<Rightarrow> mstate option" where
  "search_from r ic p [] = (case rmatch r ic (None, p, []) of [] \<Rightarrow> None | m # ms \<Rightarrow> Some m)"
| "search_from r ic p (c # cs) =
     (case rmatch r ic (None, p, c # cs) of
        [] \<Rightarrow> search_from r ic (Some c) cs
      | m # ms \<Rightarrow> Some m)"

definition re_search :: "regex \<Rightarrow> bool \<Rightarrow> string \<Rightarrow> mstate option" where
  "re_search r ic s = search_from r ic None s"

text \<open>\<^verbatim>\<open>match.group(1)\<close>; group 1 takes part in every match of the patterns below.\<close>

definition group1 :: "mstate \<Rightarrow> string" where
  "group1 m = or_empty (fst m)"

text \<open>
  \<^verbatim>\<open>re.sub(pattern, '', text)\<close>, \<^verbatim>\<open>re.findall(pattern, text)\<close> (for a pattern without
  a group) and \<^verbatim>\<open>re.split(pattern, text)\<close>, for patterns that never match the empty
  text: the text is scanned from the left, a match is taken where it is found and the
  scan goes on behind it. \<open>scan\<close> returns the pieces between the matches and the
  matched pieces, alternating, beginning and ending with a piece between matches.
\<close>

function scan :: "regex \<Rightarrow> bool \<Rightarrow> char option \<Rightarrow> string \<Rightarrow> string \<Rightarrow> string list" where
  "scan r ic p acc [] = [rev acc]"
| "scan r ic p acc (c # cs) =
     (case rmatch r ic (None, p, c # cs) of
        [] \<Rightarrow> scan r ic (Some c) (c # acc) cs
      | m # ms \<Rightarrow>
          (if length (rest m) < length (c # cs)
           then rev acc # take (length (c # cs) - length (rest m)) (c # cs)
                  # scan r ic (fst (snd m)) [] (rest m)
           else scan r ic (Some c) (c # acc) cs))"
  by pat_completeness auto
termination
  by (relation "measure (\<lambda>(r, ic, p, acc, s). length s)") auto

fun evens :: "'a list \<Rightarrow> 'a list" where
  "evens [] = []"
| "evens [x] = [x]"
| "evens (x # y # zs) = x # evens zs"

fun odds :: "'a list \<Rightarrow> 'a list" where
  "odds [] = []"
| "odds [x] = []"
| "odds (x # y # zs) = y # odds zs"

definition re_sub_empty :: "regex \<Rightarrow> string \<Rightarrow> string" where
  "re_sub_empty r s = concat (evens (scan r False None [] s))"

definition re_findall :: "regex \<Rightarrow> string \<Rightarrow> string list" where
  "re_findall r s = odds (scan r False None [] s)"

definition re_split :: "regex \<Rightarrow> string \<Rightarrow> string list" where
  "re_split r s = evens (scan r False None [] s)"


section \<open>utils.py: the field extractors\<close>

definition digit :: regex where
  "digit = In is_digit"

definition space :: regex where
  "space = In is_space"

text \<open>\<^verbatim>\<open>first_valid\<close> is the loop \<^verbatim>\<open>for pattern in patterns\<close> of the extractors: the
  first pattern that matches and whose group, cleaned, passes the check.\<close>

fun first_valid :: "(string \<Rightarrow> string) \<Rightarrow> (string \<Rightarrow> bool) \<Rightarrow> regex list \<Rightarrow> string \<Rightarrow> string option" where
  "first_valid clean ok [] text = None"
| "first_valid clean ok (pattern # patterns) text =
     (case re_search pattern True text of
        None \<Rightarrow> first_valid clean ok patterns text
      | Some m \<Rightarrow>
          (if ok (clean (group1 m)) then Some (clean (group1 m))
           else first_valid clean ok patterns text))"

subsection \<open>\<^verbatim>\<open>extract_isbn\<close>\<close>

definition isbn_patterns :: "regex list" where
  "isbn_patterns =
     [seqs [Lit ''isbn'', ropt (Lit '':''), rstar space,
            Group (seqs [Lit ''978'', times 10 digit])],
      seqs [Lit ''isbn'', ropt (Lit '':''), rstar space,
            Group (seqs [times 9 digit, In (\<lambda>c. is_digit c \<or> c = CHR ''X'')])],
      Group (seqs [Lit ''978'', times 10 digit]),
      Group (seqs [times 9 digit, In (\<lambda>c. is_digit c \<or> c = CHR ''X'')])]"

definition extract_isbn :: "string \<Rightarrow> string option" where
  "extract_isbn text =
     (if text = [] then None
      else let clean_text = re_sub_empty (NotIn (\<lambda>c. is_digit c \<or> c = CHR ''X'')) (upper text) in
        if length clean_text = 13 \<and> isdigit clean_text then Some clean_text
        else if length clean_text = 10 \<and> isdigit (take 9 clean_text)
                \<and> (isdigit [clean_text ! 9] \<or> clean_text ! 9 = CHR ''X'')
        then Some clean_text
        else first_valid (\<lambda>g. g) (\<lambda>g. True) isbn_patterns text)"

subsection \<open>\<^verbatim>\<open>extract_doi\<close>, \<^verbatim>\<open>validate_doi\<close>\<close>

definition doi_body :: regex where
  "doi_body = Group (seqs [Lit ''10.'', rplus digit, Lit ''/'',
                           rplus (NotIn (\<lambda>c. is_space c \<or> c = CHR '','' \<or> c = CHR ''}''))])"

definition doi_patterns :: "regex list" where
  "doi_patterns =
     [seqs [Lit ''doi:'', rstar space, doi_body],
      seqs [Lit ''http'', ropt (Lit ''s''), Lit ''://'', ropt (Lit ''dx.''), Lit ''doi.org/'', doi_body],
      seqs [Bol, doi_body, Eol],
      doi_body]"

definition validate_doi :: "string \<Rightarrow> bool" where
  "validate_doi doi \<longleftrightarrow>
     (if doi = [] then False
      else re_match (seqs [Bol, Lit ''10.'', Rep 4 None digit, Lit ''/'', rplus (NotIn is_space), Eol])
             False (strip doi) \<noteq> None)"

definition extract_doi :: "string \<Rightarrow> string option" where
  "extract_doi text =
     (if text = [] then None
      else first_valid
             (re_sub_empty (seqs [rplus (In (\<lambda>c. c = CHR '','' \<or> c = CHR '';'' \<or> c = CHR ''.'' \<or> is_space c)), Eol]))
             validate_doi doi_patterns (strip text))"

subsection \<open>\<^verbatim>\<open>extract_pmid\<close>\<close>

definition pmid_patterns :: "regex list" where
  "pmid_patterns =
     [seqs [Lit ''pmid'', ropt (Lit '':''), rstar space, Group (rplus digit)],
      seqs [Lit ''pubmed'', rstar space, Lit ''id'', ropt (Lit '':''), rstar space, Group (rplus digit)],
      seqs [Lit ''pubmed'', ropt (Lit '':''), rstar space, Group (rplus digit)],
      seqs [Bol, Group (Rep 7 (Some 8) digit), Eol]]"

definition extract_pmid :: "string \<Rightarrow> string option" where
  "extract_pmid text =
     (if text = [] then None
      else first_valid (\<lambda>g. g) (\<lambda>pmid. isdigit pmid \<and> 7 \<le> length pmid \<and> length pmid \<le> 8)
             pmid_patterns (strip text))"

subsection \<open>\<^verbatim>\<open>extract_pmcid\<close>\<close>

definition pmc_body :: regex where
  "pmc_body = Group (seqs [Lit ''PMC'', rplus digit])"

definition pmcid_patterns :: "regex list" where
  "pmcid_patterns =
     [seqs [Lit ''pmc'', ropt (Lit '':''), rstar space, pmc_body],
      seqs [Lit ''pmcid'', ropt (Lit '':''), rstar space, pmc_body],
      seqs [Bol, pmc_body, Eol],
      pmc_body]"

definition extract_pmcid :: "string \<Rightarrow> string option" where
  "extract_pmcid text =
     (if text = [] then None
      else first_valid upper (\<lambda>pmcid. take 3 pmcid = ''PMC'' \<and> isdigit (drop 3 pmcid))
             pmcid_patterns (strip text))"

subsection \<open>\<^verbatim>\<open>extract_arxiv_id\<close>\<close>

definition arxiv_loose :: regex where
  "arxiv_loose = Group (seqs [rplus (In (\<lambda>c. is_digit c \<or> c = CHR ''.'')), ropt (Lit ''v''), rstar digit])"

definition arxiv_new :: regex where
  "arxiv_new = seqs [times 4 digit, Lit ''.'', Rep 4 (Some 5) digit, ropt (seqs [Lit ''v'', rplus digit])]"

definition arxiv_old :: regex where
  "arxiv_old = seqs [rplus (In (\<lambda>c. is_lower c \<or> c = CHR ''-'')),
                     ropt (seqs [Lit ''.'', times 2 (In is_upper)]), Lit ''/'', times 7 digit]"

definition arxiv_patterns :: "regex list" where
  "arxiv_patterns =
     [seqs [Lit ''arxiv:'', rstar space, arxiv_loose],
      seqs [Lit ''arXiv:'', rstar space, arxiv_loose],
      seqs [Lit ''http'', ropt (Lit ''s''), Lit ''://arxiv.org/abs/'', arxiv_loose],
      seqs [Bol, arxiv_loose, Eol],
      Group arxiv_new,
      Group arxiv_old]"

definition extract_arxiv_id :: "string \<Rightarrow> string option" where
  "extract_arxiv_id text =
     (if text = [] then None
      else first_valid (\<lambda>g. g)
             (\<lambda>arxiv_id. re_match (seqs [Bol, arxiv_new, Eol]) False arxiv_id \<noteq> None
                        \<or> re_match (seqs [Bol, arxiv_old, Eol]) False arxiv_id \<noteq> None)
             arxiv_patterns (strip text))"

subsection \<open>\<^verbatim>\<open>validate_url\<close>\<close>

text \<open>
  \<^verbatim>\<open>urllib.parse.urlparse\<close> is not part of the repository; it is a parameter. It
  returns the scheme and the network location of its argument, or \<open>None\<close> where it raises.
\<close>

type_synonym urlparse = "string \<Rightarrow> (string \<times> string) option"

definition validate_url :: "urlparse \<Rightarrow> string \<Rightarrow> bool" where
  "validate_url urlparse url \<longleftrightarrow>
     (if url = [] then False
      else case urlparse (strip url) of
             None \<Rightarrow> False
           | Some (scheme, netloc) \<Rightarrow> (scheme = ''http'' \<or> scheme = ''https'') \<and> netloc \<noteq> [])"

subsection \<open>\<^verbatim>\<open>generate_publication_date\<close>\<close>

text \<open>
  Python integers are unbounded: a year is an \<^typ>\<open>int\<close>. \<open>str_int\<close> is \<^verbatim>\<open>str\<close> on an
  integer, \<open>int_of_digits\<close> is \<^verbatim>\<open>int\<close> on a text of digits, \<open>two_digits\<close> is the format
  \<^verbatim>\<open>{:02d}\<close> on a natural number.
\<close>

datatype py_exception = ValueError string | OverflowError string

definition digit_char :: "nat \<Rightarrow> char" where
  "digit_char n = ''0123456789'' ! (n mod 10)"

fun str_nat :: "nat \<Rightarrow> string" where
  "str_nat n = (if n < 10 then [digit_char n] else str_nat (n div 10) @ [digit_char n])"

definition str_int :: "int \<Rightarrow> string" where
  "str_int i = (if i < 0 then CHR ''-'' # str_nat (nat (- i)) else str_nat (nat i))"

definition digit_val :: "char \<Rightarrow> nat" where
  "digit_val c = (case map_of (zip ''0123456789'' [0 ..< 10]) c of Some n \<Rightarrow> n | None \<Rightarrow> 0)"

definition int_of_digits :: "string \<Rightarrow> nat" where
  "int_of_digits s = foldl (\<lambda>n c. 10 * n + digit_val c) 0 s"

definition two_digits :: "nat \<Rightarrow> string" where
  "two_digits n = (if n < 10 then CHR ''0'' # str_nat n else str_nat n)"

text \<open>
  The constructor \<^verbatim>\<open>datetime(year, month, day)\<close> of the standard library, as far as
  it raises: CPython first converts each argument to a C \<^verbatim>\<open>int\<close> and raises
  \<^verbatim>\<open>OverflowError\<close> where it does not fit (32 bits; the message depends on whether
  the value fits a 64-bit \<^verbatim>\<open>long\<close>), then raises \<^verbatim>\<open>ValueError\<close> unless the year is
  within 1 to 9999, the month within 1 to 12 and the day within the month.
\<close>

definition is_leap :: "int \<Rightarrow> bool" where
  "is_leap y \<longleftrightarrow> y mod 4 = 0 \<and> (y mod 100 \<noteq> 0 \<or> y mod 400 = 0)"

definition days_in_month :: "int \<Rightarrow> nat \<Rightarrow> nat" where
  "days_in_month y m =
     (if m = 2 then (if is_leap y then 29 else 28)
      else if m \<in> set [4, 6, 9, 11] then 30 else 31)"

definition datetime :: "int \<Rightarrow> nat \<Rightarrow> nat \<Rightarrow> py_exception + unit" where
  "datetime year month day =
     (if year < - (2 ^ 63) \<or> 2 ^ 63 \<le> year
        then Inl (OverflowError ''Python int too large to convert to C long'')
      else if 2 ^ 31 \<le> year
        then Inl (OverflowError ''signed integer is greater than maximum'')
      else if year < - (2 ^ 31)
        then Inl (OverflowError ''signed integer is less than minimum'')
      else if year < 1 \<or> 9999 < year
        then Inl (ValueError (''year '' @ str_int year @ '' is out of range''))
      else if month < 1 \<or> 12 < month
        then Inl (ValueError ''month must be in 1..12'')
      else if day < 1 \<or> days_in_month year month < day
        then Inl (ValueError ''day is out of range for month'')
      else Inr ())"

definition month_mapping :: "(string \<times> string) list" where
  "month_mapping =
     [(''january'', ''01''), (''jan'', ''01''),
      (''february'', ''02''), (''feb'', ''02''),
      (''march'', ''03''), (''mar'', ''03''),
      (''april'', ''04''), (''apr'', ''04''),
      (''may'', ''05''),
      (''june'', ''06''), (''jun'', ''06''),
      (''july'', ''07''), (''jul'', ''07''),
      (''august'', ''08''), (''aug'', ''08''),
      (''september'', ''09''), (''sep'', ''09''), (''sept'', ''09''),
      (''october'', ''10''), (''oct'', ''10''),
      (''november'', ''11''), (''nov'', ''11''),
      (''december'', ''12''), (''dec'', ''12'')]"

definition default_month :: string where
  "default_month = ''06''"

definition default_day :: string where
  "default_day = ''15''"

definition parse_month :: "string option \<Rightarrow> string" where
  "parse_month month =
     (if truthy month then
        (let m = lower (strip (or_empty month)) in
         case map_of month_mapping m of
           Some month_num \<Rightarrow> month_num
         | None \<Rightarrow>
            (if isdigit m \<and> 1 \<le> int_of_digits m \<and> int_of_digits m \<le> 12
             then two_digits (int_of_digits m) else default_month))
      else default_month)"

definition parse_day :: "string option \<Rightarrow> string" where
  "parse_day day =
     (if truthy day then
        (let d = strip (or_empty day) in
         if isdigit d \<and> 1 \<le> int_of_digits d \<and> int_of_digits d \<le> 31
         then two_digits (int_of_digits d) else default_day)
      else default_day)"

definition last_day :: "string \<Rightarrow> string" where
  "last_day month_num =
     (if month_num \<in> set [''02''] then ''28''
      else if month_num \<in> set [''04'', ''06'', ''09'', ''11''] then ''30''
      else ''31'')"

definition date_text :: "int \<Rightarrow> string \<Rightarrow> string \<Rightarrow> string" where
  "date_text year month_num day_num = str_int year @ ''-'' @ month_num @ ''-'' @ day_num"

definition generate_publication_date ::
  "int option \<Rightarrow> string option \<Rightarrow> string option \<Rightarrow> py_exception + string option" where
  "generate_publication_date year month day =
     (case year of
        None \<Rightarrow> Inr None
      | Some y \<Rightarrow>
         (if y = 0 then Inr None
          else let month_num = parse_month month; day_num = parse_day day in
            case datetime y (int_of_digits month_num) (int_of_digits day_num) of
              Inr u \<Rightarrow> Inr (Some (date_text y month_num day_num))
            | Inl (ValueError msg) \<Rightarrow> Inr (Some (date_text y month_num (last_day month_num)))
            | Inl (OverflowError msg) \<Rightarrow> Inl (OverflowError msg)))"

section \<open>models.py\<close>

datatype CitationType = DOI | PMID | PMCID | ARXIV | ISBN | URL | WIKIDATA | RAW

fun type_value :: "CitationType \<Rightarrow> string" where
  "type_value DOI = ''doi''"
| "type_value PMID = ''pmid''"
| "type_value PMCID = ''pmcid''"
| "type_value ARXIV = ''arxiv''"
| "type_value ISBN = ''isbn''"
| "type_value URL = ''url''"
| "type_value WIKIDATA = ''wikidata''"
| "type_value RAW = ''raw''"

subsection \<open>\<^verbatim>\<open>int\<close> on a text\<close>

text \<open>
  The built-in \<^verbatim>\<open>int(text)\<close> in base 10, on ASCII text: white space around the
  number is dropped (tab, newline, vertical tab, form feed, carriage return, space), one
  sign may come first, and the digits may be separated by single underscores. \<open>None\<close>
  is the \<^verbatim>\<open>ValueError\<close> of any other text.
\<close>

definition is_int_space :: "char \<Rightarrow> bool" where
  "is_int_space c \<longleftrightarrow> c \<in> set [CHR 0x09, CHR 0x0A, CHR 0x0B, CHR 0x0C, CHR 0x0D, CHR '' '']"

fun digits_from :: "nat \<Rightarrow> string \<Rightarrow> nat option" where
  "digits_from n [] = Some n"
| "digits_from n [c] = (if is_digit c then Some (10 * n + digit_val c) else None)"
| "digits_from n (c # d # ds) =
     (if is_digit c then digits_from (10 * n + digit_val c) (d # ds)
      else if c = CHR ''_'' \<and> is_digit d then digits_from (10 * n + digit_val d) ds
      else None)"

definition py_digits :: "string \<Rightarrow> nat option" where
  "py_digits s = (case s of [] \<Rightarrow> None | c # cs \<Rightarrow> if is_digit c then digits_from (digit_val c) cs else None)"

definition int_strip :: "string \<Rightarrow> string" where
  "int_strip s = rev (dropWhile is_int_space (rev (dropWhile is_int_space s)))"

definition py_int :: "string \<Rightarrow> int option" where
  "py_int text =
     (case int_strip text of
        [] \<Rightarrow> None
      | c # cs \<Rightarrow>
         (if c = CHR ''-'' then map_option (\<lambda>n. - int n) (py_digits cs)
          else if c = CHR ''+'' then map_option int (py_digits cs)
          else map_option int (py_digits (c # cs))))"

subsection \<open>\<^verbatim>\<open>BibTeXEntry\<close>\<close>

record BibTeXEntry =
  key :: string
  entry_type :: string
  entry_fields :: "(string \<times> string) list"
  title :: "string option"
  authors :: "string list option"
  journal :: "string option"
  booktitle :: "string option"
  year :: "int option"
  volume :: "string option"
  number :: "string option"
  pages :: "string option"
  publisher :: "string option"
  doi :: "string option"
  pmid :: "string option"
  pmcid :: "string option"
  arxiv :: "string option"
  isbn :: "string option"
  url :: "string option"
  month :: "string option"
  day :: "string option"

definition and_separator :: regex where
  "and_separator = seqs [rplus space, Lit ''and'', rplus space]"

text \<open>One round of the loop of \<^verbatim>\<open>_parse_authors\<close>: the names it appends for one piece.\<close>

definition clean_author :: "string \<Rightarrow> string list" where
  "clean_author piece =
     (let author = strip piece in
      if author = [] then []
      else if CHR '','' \<in> set author then
        (let last = takeWhile (\<lambda>c. c \<noteq> CHR '','') author;
             first = tl (dropWhile (\<lambda>c. c \<noteq> CHR '','') author)
         in [strip first @ '' '' @ strip last])
      else [author])"

definition parse_authors :: "string \<Rightarrow> string list" where
  "parse_authors author_string = concat (map clean_author (re_split and_separator author_string))"

text \<open>The dictionary \<^verbatim>\<open>fields\<close> is a list of pairs in the order of the dictionary;
  \<open>lowered\<close> is the dictionary with lower-cased keys built from it.\<close>

definition lowered :: "(string \<times> string) list \<Rightarrow> string \<rightharpoonup> string" where
  "lowered fs = fold (\<lambda>(k, v) m. m(lower k \<mapsto> v)) fs Map.empty"

definition extract_common_fields :: "string \<Rightarrow> string \<Rightarrow> (string \<times> string) list \<Rightarrow> BibTeXEntry" where
  "extract_common_fields k t fs =
     (let fields = lowered fs in
      \<lparr> key = k, entry_type = t, entry_fields = fs,
        title = fields ''title'',
        authors = map_option parse_authors (fields ''author''),
        journal = fields ''journal'',
        booktitle = fields ''booktitle'',
        year = (case fields ''year'' of None \<Rightarrow> None | Some text \<Rightarrow> py_int text),
        volume = fields ''volume'',
        number = fields ''number'',
        pages = fields ''pages'',
        publisher = fields ''publisher'',
        doi = fields ''doi'',
        pmid = fields ''pmid'',
        pmcid = fields ''pmcid'',
        arxiv = (if truthy (fields ''arxiv'') then fields ''arxiv'' else fields ''eprint''),
        isbn = fields ''isbn'',
        url = fields ''url'',
        month = fields ''month'',
        day = fields ''day'' \<rparr>)"

subsection \<open>\<^verbatim>\<open>ManubotCitation\<close>\<close>

record ManubotCitation =
  m_id :: string
  citation_type :: CitationType
  m_identifier :: string
  m_title :: "string option"
  m_authors :: "string list option"
  m_journal :: "string option"
  m_year :: "int option"
  m_date :: "string option"
  m_volume :: "string option"
  m_issue :: "string option"
  m_pages :: "string option"
  m_publisher :: "string option"
  m_link :: "string option"
  m_original_key :: "string option"
  m_bibtex_type :: "string option"

definition validate_manubot_id :: "string \<Rightarrow> py_exception + string" where
  "validate_manubot_id v =
     (if CHR '':'' \<notin> set v then Inl (ValueError ''Manubot ID must contain a colon separator'')
      else Inr v)"

text \<open>Construction of a \<^verbatim>\<open>ManubotCitation\<close>: the validator of \<^verbatim>\<open>id\<close> runs on it.\<close>

definition new_ManubotCitation :: "ManubotCitation \<Rightarrow> py_exception + ManubotCitation" where
  "new_ManubotCitation c =
     (case validate_manubot_id (m_id c) of Inl e \<Rightarrow> Inl e | Inr v \<Rightarrow> Inr (c\<lparr>m_id := v\<rparr>))"

text \<open>The dictionary of \<^verbatim>\<open>to_dict\<close>: a key that is not set is \<open>None\<close>.\<close>

record citation_dict =
  d_id :: "string option"
  d_type :: "string option"
  d_title :: "string option"
  d_authors :: "string list option"
  d_publisher :: "string option"
  d_year :: "int option"
  d_date :: "string option"
  d_link :: "string option"

definition to_dict :: "bool \<Rightarrow> ManubotCitation \<Rightarrow> citation_dict" where
  "to_dict include_metadata c =
     \<lparr> d_id = Some (m_id c),
       d_type = Some (type_value (citation_type c)),
       d_title = (if include_metadata \<and> truthy (m_title c) then m_title c else None),
       d_authors = (if include_metadata \<and> m_authors c \<noteq> None \<and> m_authors c \<noteq> Some []
                    then m_authors c else None),
       d_publisher = (if include_metadata \<and> truthy (m_journal c) then m_journal c else None),
       d_year = (if include_metadata \<and> m_year c \<noteq> None \<and> m_year c \<noteq> Some 0
                 then m_year c else None),
       d_date = (if include_metadata \<and> truthy (m_date c) then m_date c else None),
       d_link = (if include_metadata \<and> truthy (m_link c) then m_link c else None) \<rparr>"

record ConversionResult =
  original_key :: string
  success :: bool
  manubot_citation :: "ManubotCitation option"
  errors :: "string list"
  warnings :: "string list"

record BatchConversionResult =
  input_files :: "string list"
  total_entries :: nat
  successful_conversions :: nat
  failed_conversions :: nat
  conversions :: "ConversionResult list"

section \<open>converter.py\<close>

subsection \<open>\<^verbatim>\<open>_extract_best_identifier\<close>\<close>

text \<open>
  The loop over \<^verbatim>\<open>self.citation_priority\<close>, the list being a parameter. The result
  \<open>None\<close> is the pair \<^verbatim>\<open>(None, None)\<close> of the source.
\<close>

fun extract_best_identifier ::
  "urlparse \<Rightarrow> string list \<Rightarrow> BibTeXEntry \<Rightarrow> (CitationType \<times> string) option" where
  "extract_best_identifier urlparse [] entry =
     (if key entry \<noteq> [] then Some (RAW, key entry) else None)"
| "extract_best_identifier urlparse (identifier_type # priority) entry =
     (if identifier_type = ''doi'' \<and> truthy (doi entry) then
        (case extract_doi (or_empty (doi entry)) of
           Some clean_doi \<Rightarrow>
             if clean_doi \<noteq> [] then Some (DOI, clean_doi)
             else extract_best_identifier urlparse priority entry
         | None \<Rightarrow> extract_best_identifier urlparse priority entry)
      else if identifier_type = ''pmid'' \<and> truthy (pmid entry) then
        (case extract_pmid (or_empty (pmid entry)) of
           Some clean_pmid \<Rightarrow>
             if clean_pmid \<noteq> [] then Some (PMID, clean_pmid)
             else extract_best_identifier urlparse priority entry
         | None \<Rightarrow> extract_best_identifier urlparse priority entry)
      else if identifier_type = ''pmcid'' \<and> truthy (pmcid entry) then
        (case extract_pmcid (or_empty (pmcid entry)) of
           Some clean_pmcid \<Rightarrow>
             if clean_pmcid \<noteq> [] then Some (PMCID, clean_pmcid)
             else extract_best_identifier urlparse priority entry
         | None \<Rightarrow> extract_best_identifier urlparse priority entry)
      else if identifier_type = ''arxiv'' \<and> truthy (arxiv entry) then
        (case extract_arxiv_id (or_empty (arxiv entry)) of
           Some clean_arxiv \<Rightarrow>
             if clean_arxiv \<noteq> [] then Some (ARXIV, clean_arxiv)
             else extract_best_identifier urlparse priority entry
         | None \<Rightarrow> extract_best_identifier urlparse priority entry)
      else if identifier_type = ''isbn'' \<and> truthy (isbn entry) then
        (case extract_isbn (or_empty (isbn entry)) of
           Some clean_isbn \<Rightarrow>
             if clean_isbn \<noteq> [] then Some (ISBN, clean_isbn)
             else extract_best_identifier urlparse priority entry
         | None \<Rightarrow> extract_best_identifier urlparse priority entry)
      else if identifier_type = ''url'' \<and> truthy (url entry) then
        (if validate_url urlparse (or_empty (url entry)) then Some (URL, or_empty (url entry))
         else extract_best_identifier urlparse priority entry)
      else extract_best_identifier urlparse priority entry)"

subsection \<open>\<^verbatim>\<open>convert_entry\<close>\<close>

text \<open>
  \<^verbatim>\<open>clean_bibtex_field\<close> rewrites a text (braces and LaTeX commands) and does not
  raise; the conversion takes it as a parameter. An exception raised inside the
  \<^verbatim>\<open>try\<close> block ends the conversion with the message of the exception as an error.
\<close>

fun message :: "py_exception \<Rightarrow> string" where
  "message (ValueError msg) = msg"
| "message (OverflowError msg) = msg"

definition convert_entry ::
  "urlparse \<Rightarrow> (string \<Rightarrow> string) \<Rightarrow> string list \<Rightarrow> BibTeXEntry \<Rightarrow> ConversionResult" where
  "convert_entry urlparse clean_bibtex_field citation_priority entry =
     (let result = \<lparr> original_key = key entry, success = False, manubot_citation = None,
                      errors = [], warnings = [] \<rparr>
      in case extract_best_identifier urlparse citation_priority entry of
           None \<Rightarrow> result\<lparr>errors := errors result @ [''No valid identifier found'']\<rparr>
         | Some (ctype, ident) \<Rightarrow>
            (if ident = [] then result\<lparr>errors := errors result @ [''No valid identifier found'']\<rparr>
             else case generate_publication_date (year entry) (month entry) (day entry) of
                 Inl e \<Rightarrow> result\<lparr>errors := errors result @ [''Conversion error: '' @ message e]\<rparr>
               | Inr publication_date \<Rightarrow>
                  (case new_ManubotCitation
                     \<lparr> m_id = type_value ctype @ '':'' @ ident,
                       citation_type = ctype,
                       m_identifier = ident,
                       m_title = (if truthy (title entry)
                                  then Some (clean_bibtex_field (or_empty (title entry))) else None),
                       m_authors = authors entry,
                       m_journal = (if truthy (journal entry)
                                    then Some (clean_bibtex_field (or_empty (journal entry)))
                                    else if truthy (booktitle entry)
                                    then Some (clean_bibtex_field (or_empty (booktitle entry)))
                                    else None),
                       m_year = year entry,
                       m_date = publication_date,
                       m_volume = volume entry,
                       m_issue = number entry,
                       m_pages = pages entry,
                       m_publisher = (if truthy (publisher entry)
                                      then Some (clean_bibtex_field (or_empty (publisher entry)))
                                      else None),
                       m_link = url entry,
                       m_original_key = Some (key entry),
                       m_bibtex_type = Some (entry_type entry) \<rparr> of
                     Inl e \<Rightarrow> result\<lparr>errors := errors result @ [''Conversion error: '' @ message e]\<rparr>
                   | Inr citation \<Rightarrow>
                       result\<lparr> success := True, manubot_citation := Some citation,
                               warnings :=
                                 (if truthy (title entry) then [] else [''No title found''])
                                 @ (if authors entry = None \<or> authors entry = Some [] then [''No authors found''] else [])
                                 @ (if year entry = None \<or> year entry = Some 0
                                    then [''No publication year found''] else []) \<rparr>)))"

subsection \<open>\<^verbatim>\<open>batch_convert\<close>\<close>




subsection \<open>\<^verbatim>\<open>_find_title_overlap\<close>\<close>

definition word_pattern :: regex where
  "word_pattern = seqs [WordB, rplus (In is_word), WordB]"

text \<open>The \<^verbatim>\<open>while\<close> loop that extends a run from the positions \<open>i\<close> and \<open>j\<close>.\<close>

function overlap_from :: "string list \<Rightarrow> string list \<Rightarrow> nat \<Rightarrow> nat \<Rightarrow> nat \<Rightarrow> nat" where
  "overlap_from words1 words2 i j overlap =
     (if i + overlap < length words1 \<and> j + overlap < length words2
         \<and> words1 ! (i + overlap) = words2 ! (j + overlap)
      then overlap_from words1 words2 i j (overlap + 1)
      else overlap)"
  by pat_completeness auto
termination
  by (relation "measure (\<lambda>(words1, words2, i, j, overlap). length words1 - (i + overlap))") auto

declare overlap_from.simps [simp del]

definition max_run :: "string list \<Rightarrow> string list \<Rightarrow> nat" where
  "max_run words1 words2 =
     fold (\<lambda>i max_overlap.
             fold (\<lambda>j max_overlap. max max_overlap (overlap_from words1 words2 i j 0))
                  [0 ..< length words2] max_overlap)
          [0 ..< length words1] 0"

definition find_title_overlap :: "string \<Rightarrow> string \<Rightarrow> nat" where
  "find_title_overlap title1 title2 =
     (if title1 = [] \<or> title2 = [] then 0
      else max_run (re_findall word_pattern (lower title1)) (re_findall word_pattern (lower title2)))"

subsection \<open>\<^verbatim>\<open>_remove_arxiv_duplicates\<close>\<close>

definition is_CoRR :: "citation_dict \<Rightarrow> bool" where
  "is_CoRR c \<longleftrightarrow> d_publisher c = Some ''CoRR''"

text \<open>The inner loop: the published paper at which it breaks, if it does.\<close>

fun first_published :: "string \<Rightarrow> int \<Rightarrow> citation_dict list \<Rightarrow> citation_dict option" where
  "first_published arxiv_title min_overlap [] = None"
| "first_published arxiv_title min_overlap (non_arxiv_paper # papers) =
     (let non_arxiv_title = or_empty (d_title non_arxiv_paper) in
      if non_arxiv_title = [] then first_published arxiv_title min_overlap papers
      else if min_overlap \<le> int (find_title_overlap arxiv_title non_arxiv_title)
      then Some non_arxiv_paper
      else first_published arxiv_title min_overlap papers)"

text \<open>The outer loop: the set \<^verbatim>\<open>arxiv_to_remove\<close> of the ids it collects.\<close>

fun arxiv_to_remove :: "citation_dict list \<Rightarrow> citation_dict list \<Rightarrow> int \<Rightarrow> string option set" where
  "arxiv_to_remove [] non_arxiv_papers min_overlap = {}"
| "arxiv_to_remove (arxiv_paper # papers) non_arxiv_papers min_overlap =
     (let arxiv_title = or_empty (d_title arxiv_paper) in
      if arxiv_title = [] then arxiv_to_remove papers non_arxiv_papers min_overlap
      else case first_published arxiv_title min_overlap non_arxiv_papers of
             Some published \<Rightarrow>
               insert (d_id arxiv_paper) (arxiv_to_remove papers non_arxiv_papers min_overlap)
           | None \<Rightarrow> arxiv_to_remove papers non_arxiv_papers min_overlap)"

definition remove_arxiv_duplicates :: "citation_dict list \<Rightarrow> int \<Rightarrow> citation_dict list" where
  "remove_arxiv_duplicates citations min_overlap =
     (let arxiv_papers = filter is_CoRR citations;
          non_arxiv_papers = filter (\<lambda>c. \<not> is_CoRR c) citations;
          to_remove = arxiv_to_remove arxiv_papers non_arxiv_papers min_overlap
      in filter (\<lambda>c. d_id c \<notin> to_remove) citations)"

subsection \<open>\<^verbatim>\<open>save_yaml\<close>: the list that is written\<close>

definition successful_citations :: "bool \<Rightarrow> BatchConversionResult \<Rightarrow> citation_dict list" where
  "successful_citations include_metadata batch_result =
     concat (map (\<lambda>result.
        case manubot_citation result of
          Some citation \<Rightarrow> if success result then [to_dict include_metadata citation] else []
        | None \<Rightarrow> []) (conversions batch_result))"

definition sort_year :: "citation_dict \<Rightarrow> int" where
  "sort_year x = (case d_year x of None \<Rightarrow> 0 | Some y \<Rightarrow> y)"

definition sort_title :: "citation_dict \<Rightarrow> string" where
  "sort_title x = lower (or_empty (d_title x))"

definition citation_key :: "citation_dict \<Rightarrow> int \<times> string" where
  "citation_key x = (- sort_year x, sort_title x)"

text \<open>\<^verbatim>\<open>list.sort\<close> is stable; so is \<^const>\<open>sort_key\<close>.\<close>

definition sorted_citations :: "citation_dict list \<Rightarrow> citation_dict list" where
  "sorted_citations citations = sort_key citation_key (remove_arxiv_duplicates citations 6)"

definition save_yaml :: "bool \<Rightarrow> BatchConversionResult \<Rightarrow> citation_dict list" where
  "save_yaml include_metadata batch_result =
     sorted_citations (successful_citations include_metadata batch_result)"


section \<open>Notions of the specification\<close>

text \<open>The validation grammar of the isbn family: exactly 13 digits, or 9 digits and a
  tenth character that is a digit or the capital letter X.\<close>

definition isbn_grammar :: "string \<Rightarrow> bool" where
  "isbn_grammar v \<longleftrightarrow>
     (length v = 13 \<and> list_all is_digit v)
     \<or> (length v = 10 \<and> list_all is_digit (take 9 v) \<and> (is_digit (v ! 9) \<or> v ! 9 = CHR ''X''))"

text \<open>
  What one family of the priority list yields for a record: the family's extractor on the
  raw candidate, if the record has a non-empty one. Names outside the six known families
  yield nothing.
\<close>

definition candidate :: "CitationType \<Rightarrow> (string \<Rightarrow> string option) \<Rightarrow> string option \<Rightarrow> (CitationType \<times> string) option" where
  "candidate family extract raw =
     (if truthy raw then
        (case extract (or_empty raw) of
           Some v \<Rightarrow> if v \<noteq> [] then Some (family, v) else None
         | None \<Rightarrow> None)
      else None)"

definition family_match :: "urlparse \<Rightarrow> string \<Rightarrow> BibTeXEntry \<Rightarrow> (CitationType \<times> string) option" where
  "family_match urlparse name entry =
     (if name = ''doi'' then candidate DOI extract_doi (doi entry)
      else if name = ''pmid'' then candidate PMID extract_pmid (pmid entry)
      else if name = ''pmcid'' then candidate PMCID extract_pmcid (pmcid entry)
      else if name = ''arxiv'' then candidate ARXIV extract_arxiv_id (arxiv entry)
      else if name = ''isbn'' then candidate ISBN extract_isbn (isbn entry)
      else if name = ''url'' then
        (if truthy (url entry) \<and> validate_url urlparse (or_empty (url entry))
         then Some (URL, or_empty (url entry)) else None)
      else None)"

definition known_families :: "string list" where
  "known_families = [''doi'', ''pmid'', ''pmcid'', ''arxiv'', ''isbn'', ''url'']"


text \<open>The priority list that the converter uses when the configuration gives none.\<close>

definition default_priority :: "string list" where
  "default_priority = [''doi'', ''pmid'', ''pmcid'', ''arxiv'', ''isbn'', ''url'']"

text \<open>Records for the examples.\<close>

definition smith2020 :: BibTeXEntry where
  "smith2020 = extract_common_fields ''smith2020'' ''article''
     [(''title'', ''Test Paper''), (''doi'', ''10.1234/example''), (''pmid'', ''12345678'')]"



text \<open>
  Two lists of words share a run of \<open>k\<close> identical consecutive words.
\<close>

definition shares_run :: "nat \<Rightarrow> 'a list \<Rightarrow> 'a list \<Rightarrow> bool" where
  "shares_run k ws1 ws2 \<longleftrightarrow>
     (\<exists>i j. i + k \<le> length ws1 \<and> j + k \<le> length ws2 \<and> take k (drop i ws1) = take k (drop j ws2))"

text \<open>
  A title normalised to its lower-cased word tokens.
\<close>

definition title_words :: "string \<Rightarrow> string list" where
  "title_words t = re_findall word_pattern (lower t)"

text \<open>
  The titles share a run of at least \<open>min_overlap\<close> words; \<open>qualifies\<close>: a citation whose
  title is not empty (the source's truth test) and shares such a run with the title of an
  arXiv citation; \<open>marked\<close>: an arXiv citation with a title that is not empty for which some
  citation that is not from arXiv qualifies.
\<close>

definition duplicate_title :: "int \<Rightarrow> string \<Rightarrow> string \<Rightarrow> bool" where
  "duplicate_title min_overlap t1 t2 \<longleftrightarrow>
     (\<exists>k. min_overlap \<le> int k \<and> shares_run k (title_words t1) (title_words t2))"

definition qualifies :: "int \<Rightarrow> string \<Rightarrow> citation_dict \<Rightarrow> bool" where
  "qualifies min_overlap arxiv_title n \<longleftrightarrow>
     or_empty (d_title n) \<noteq> [] \<and> duplicate_title min_overlap arxiv_title (or_empty (d_title n))"

definition marked :: "citation_dict list \<Rightarrow> int \<Rightarrow> citation_dict \<Rightarrow> bool" where
  "marked citations min_overlap a \<longleftrightarrow>
     is_CoRR a \<and> or_empty (d_title a) \<noteq> []
     \<and> (\<exists>n\<in>set citations. \<not> is_CoRR n \<and> qualifies min_overlap (or_empty (d_title a)) n)"

text \<open>
  The sequence without the marked citations themselves.
\<close>

definition minus_marked :: "citation_dict list \<Rightarrow> int \<Rightarrow> citation_dict list" where
  "minus_marked citations min_overlap = filter (\<lambda>c. \<not> marked citations min_overlap c) citations"

text \<open>
  Citation dictionaries for the examples.
\<close>

definition paper :: "string \<Rightarrow> string \<Rightarrow> string \<Rightarrow> int \<Rightarrow> citation_dict" where
  "paper i t p y = \<lparr> d_id = Some i, d_type = Some (takeWhile (\<lambda>c. c \<noteq> CHR '':'') i),
                     d_title = Some t, d_authors = None, d_publisher = Some p, d_year = Some y,
                     d_date = None, d_link = None \<rparr>"

definition gnn_arxiv :: citation_dict where
  "gnn_arxiv = paper ''arxiv:1901.00001'' ''Deep Learning for Graph Neural Networks'' ''CoRR'' 2019"

definition gnn_published :: citation_dict where
  "gnn_published = paper ''doi:10.1000/gnn'' ''Deep Learning for Graph Neural Network Applications'' ''Nature'' 2020"

definition on_gnn_arxiv :: citation_dict where
  "on_gnn_arxiv = paper ''arxiv:1901.00001'' ''On Deep Learning for Graph Neural Networks'' ''CoRR'' 2019"

definition on_gnn_published :: citation_dict where
  "on_gnn_published = paper ''doi:10.1000/gnn'' ''On Deep Learning for Graph Neural Network Applications'' ''Nature'' 2020"

definition he2016_arxiv :: citation_dict where
  "he2016_arxiv = paper ''raw:he2016'' ''Deep Residual Learning for Image Recognition'' ''CoRR'' 2015"

definition he2016_cvpr :: citation_dict where
  "he2016_cvpr = paper ''raw:he2016'' ''Deep Residual Learning for Image Recognition'' ''CVPR'' 2016"

definition devlin2019_arxiv :: citation_dict where
  "devlin2019_arxiv = paper ''raw:devlin2019''
     ''BERT: Pre-training of Deep Bidirectional Transformers for Language Understanding'' ''CoRR'' 2018"

definition devlin2019_naacl :: citation_dict where
  "devlin2019_naacl = paper ''raw:devlin2019''
     ''BERT: Pre-training of Deep Bidirectional Transformers for Language Understanding'' ''NAACL-HLT'' 2019"







text \<open>
  A record with a key in the style of DBLP and no identifier field, and a citation built
  directly, as the tests build one.
\<close>

definition vaswani :: BibTeXEntry where
  "vaswani = extract_common_fields ''DBLP:conf/nips/VaswaniSPUJGKP17'' ''inproceedings''
     [(''title'', ''Attention is All you Need''), (''booktitle'', ''NIPS''), (''year'', ''2017'')]"

definition mislabelled :: ManubotCitation where
  "mislabelled =
     \<lparr> m_id = ''doi:10.1002/(SICI)1097-4571(199205)43:4'', citation_type = PMID,
       m_identifier = ''12345678'', m_title = Some ''Test Paper'', m_authors = Some [''John Doe''],
       m_journal = None, m_year = Some 2023, m_date = None, m_volume = None, m_issue = None,
       m_pages = None, m_publisher = Some ''Nature'', m_link = None, m_original_key = None,
       m_bibtex_type = None \<rparr>"

text \<open>
  A record with a valid DOI and a year beyond the range of a C \<^verbatim>\<open>int\<close>.
\<close>

definition far_future :: BibTeXEntry where
  "far_future = extract_common_fields ''smith2020'' ''article''
     [(''title'', ''Test Paper''), (''doi'', ''10.1234/example''), (''year'', ''2147483648'')]"

text \<open>
  A separator of authors begins at the start of the text: white space, the word
  \<^verbatim>\<open>and\<close> in small letters, white space. \<open>after_sep\<close> is the text behind the longest
  such separator, \<open>has_separator\<close> says that a separator begins somewhere in the text, and
  \<open>none_before u t\<close> that none begins inside \<open>u\<close> when \<open>t\<close> follows it.
\<close>

definition sep_at :: "string \<Rightarrow> bool" where
  "sep_at s \<longleftrightarrow>
     (let r = dropWhile is_space s in
      r \<noteq> s \<and> take 3 r = ''and'' \<and> drop 3 r \<noteq> [] \<and> is_space (hd (drop 3 r)))"

definition after_sep :: "string \<Rightarrow> string" where
  "after_sep s = dropWhile is_space (drop 3 (dropWhile is_space s))"

fun has_separator :: "string \<Rightarrow> bool" where
  "has_separator [] \<longleftrightarrow> False"
| "has_separator (c # cs) \<longleftrightarrow> sep_at (c # cs) \<or> has_separator cs"

fun none_before :: "string \<Rightarrow> string \<Rightarrow> bool" where
  "none_before [] t \<longleftrightarrow> True"
| "none_before (c # cs) t \<longleftrightarrow> \<not> sep_at ((c # cs) @ t) \<and> none_before cs t"


section \<open>Properties\<close>


subsection \<open>The field extractors\<close>

text \<open>
  C3. Every extractor returns nothing or a value of its family's grammar. This fails for
  \<^verbatim>\<open>extract_isbn\<close>: its first path returns the upper-cased, cleaned text, but where
  that text has neither 10 nor 13 characters the fallback patterns are searched without
  regard to case in the text as it was given, and the match is returned as it is. On the
  text below the result ends in a small x, which the grammar does not allow.
\<close>

theorem extract_isbn_small_x:
  "extract_isbn ''ISBN: 123456789x, 2nd edition'' = Some ''123456789x''
   \<and> \<not> isbn_grammar ''123456789x''"
  by code_simp


subsection \<open>Identifier resolution\<close>

lemma best_identifier_step:
  "extract_best_identifier up (n # ps) e =
     (case family_match up n e of Some r \<Rightarrow> Some r | None \<Rightarrow> extract_best_identifier up ps e)"
  by (simp add: family_match_def candidate_def split: option.splits)

lemma best_identifier_none:
  "\<forall>p\<in>set ps. family_match up p e = None \<Longrightarrow> extract_best_identifier up (ps @ qs) e = extract_best_identifier up qs e"
  by (induction ps) (simp_all add: best_identifier_step del: extract_best_identifier.simps(2))

lemma best_identifier_first:
  assumes "\<forall>p\<in>set ps. family_match up p e = None" and "family_match up n e = Some r"
  shows "extract_best_identifier up (ps @ n # qs) e = Some r"
  using assms by (simp add: best_identifier_none best_identifier_step del: extract_best_identifier.simps(2))

lemma family_match_unknown: "n \<notin> set known_families \<Longrightarrow> family_match up n e = None"
  by (simp add: family_match_def known_families_def)


lemma first_valid_ok: "first_valid clean ok ps t = Some v \<Longrightarrow> ok v"
  by (induction ps) (auto split: option.splits if_splits)

lemma extract_pmid_digits:
  "extract_pmid t = Some v \<Longrightarrow> isdigit v \<and> 7 \<le> length v \<and> length v \<le> 8"
  by (auto simp: extract_pmid_def split: if_splits dest: first_valid_ok)



text \<open>
  C2. Resolution walks the priority list in order. The first family that yields an
  identifier wins, whatever the families behind it would yield; a record with a valid
  PMID candidate and a valid DOI candidate resolves to the PMID under the priority
  \<open>[pmid, doi]\<close>; a name outside the known families can be struck from the list
  without changing the result.
\<close>

theorem resolution_first_match_wins:
  "(\<forall>ps n qs r. (\<forall>p\<in>set ps. family_match up p e = None) \<and> family_match up n e = Some r
       \<longrightarrow> extract_best_identifier up (ps @ n # qs) e = Some r)
   \<and> (\<forall>v d. truthy (pmid e) \<and> extract_pmid (or_empty (pmid e)) = Some v
            \<and> truthy (doi e) \<and> extract_doi (or_empty (doi e)) = Some d
       \<longrightarrow> extract_best_identifier up [''pmid'', ''doi''] e = Some (PMID, v))
   \<and> (\<forall>ps n qs. n \<notin> set known_families
       \<longrightarrow> extract_best_identifier up (ps @ n # qs) e = extract_best_identifier up (ps @ qs) e)"
proof (intro conjI allI impI)
  fix ps n qs r
  assume "(\<forall>p\<in>set ps. family_match up p e = None) \<and> family_match up n e = Some r"
  then show "extract_best_identifier up (ps @ n # qs) e = Some r"
    by (simp add: best_identifier_first)
next
  fix v d
  assume h: "truthy (pmid e) \<and> extract_pmid (or_empty (pmid e)) = Some v
            \<and> truthy (doi e) \<and> extract_doi (or_empty (doi e)) = Some d"
  then have "v \<noteq> []" using extract_pmid_digits [of "or_empty (pmid e)" v] by (auto simp: isdigit_def)
  with h have "family_match up ''pmid'' e = Some (PMID, v)"
    by (simp add: family_match_def candidate_def)
  then show "extract_best_identifier up [''pmid'', ''doi''] e = Some (PMID, v)"
    using best_identifier_first [of "[]" up e "''pmid''" "(PMID, v)" "[''doi'']"] by simp
next
  fix ps n qs
  assume "n \<notin> set known_families"
  then have "family_match up n e = None" by (rule family_match_unknown)
  then have "extract_best_identifier up (n # qs) e = extract_best_identifier up qs e"
    by (simp add: best_identifier_step del: extract_best_identifier.simps(2))
  then show "extract_best_identifier up (ps @ n # qs) e = extract_best_identifier up (ps @ qs) e"
    by (induction ps) (simp_all add: best_identifier_step del: extract_best_identifier.simps(2) split: option.splits)
qed

theorem resolution_first_match_wins_witness:
  "extract_best_identifier (\<lambda>u. None) [''pmid'', ''doi''] smith2020 = Some (PMID, ''12345678'')
   \<and> extract_best_identifier (\<lambda>u. None) [''isbn'', ''doi'', ''pmid''] smith2020 = Some (DOI, ''10.1234/example'')
   \<and> extract_best_identifier (\<lambda>u. None) [''doi'', ''DOI'', ''pmid''] smith2020
       = extract_best_identifier (\<lambda>u. None) [''doi'', ''pmid''] smith2020"
proof -
  have p: "truthy (pmid smith2020)" "extract_pmid (or_empty (pmid smith2020)) = Some ''12345678''"
    by code_simp+
  have d: "truthy (doi smith2020)" "extract_doi (or_empty (doi smith2020)) = Some ''10.1234/example''"
    by code_simp+
  have i: "\<forall>p\<in>set [''isbn'']. family_match (\<lambda>u. None) p smith2020 = None"
    by code_simp
  have m: "family_match (\<lambda>u. None) ''doi'' smith2020 = Some (DOI, ''10.1234/example'')"
    by code_simp
  have u: "''DOI'' \<notin> set known_families"
    by code_simp
  note t = resolution_first_match_wins [of "\<lambda>u. None" smith2020]
  from t p d have 1: "extract_best_identifier (\<lambda>u. None) [''pmid'', ''doi''] smith2020 = Some (PMID, ''12345678'')"
    by blast
  from t i m have 2: "extract_best_identifier (\<lambda>u. None) ([''isbn''] @ ''doi'' # [''pmid'']) smith2020 = Some (DOI, ''10.1234/example'')"
    by blast
  from t u have 3: "extract_best_identifier (\<lambda>u. None) ([''doi''] @ ''DOI'' # [''pmid'']) smith2020
       = extract_best_identifier (\<lambda>u. None) ([''doi''] @ [''pmid'']) smith2020"
    by blast
  from 1 2 3 show ?thesis by simp
qed





subsection \<open>Duplicate removal\<close>

lemma overlap_from_spec:
  assumes "\<forall>t<n. w1 ! (i + t) = w2 ! (j + t)" "i + n \<le> length w1" "j + n \<le> length w2"
  shows "n \<le> overlap_from w1 w2 i j n
       \<and> i + overlap_from w1 w2 i j n \<le> length w1
       \<and> j + overlap_from w1 w2 i j n \<le> length w2
       \<and> (\<forall>t<overlap_from w1 w2 i j n. w1 ! (i + t) = w2 ! (j + t))
       \<and> \<not> (i + overlap_from w1 w2 i j n < length w1 \<and> j + overlap_from w1 w2 i j n < length w2
            \<and> w1 ! (i + overlap_from w1 w2 i j n) = w2 ! (j + overlap_from w1 w2 i j n))"
  using assms
proof (induction w1 w2 i j n rule: overlap_from.induct)
  case (1 w1 w2 i j n)
  show ?case
  proof (cases "i + n < length w1 \<and> j + n < length w2 \<and> w1 ! (i + n) = w2 ! (j + n)")
    case True
    have "\<forall>t<n + 1. w1 ! (i + t) = w2 ! (j + t)"
      using "1.prems"(1) True by (auto simp: less_Suc_eq)
    moreover have "i + (n + 1) \<le> length w1" "j + (n + 1) \<le> length w2"
      using True by auto
    ultimately have IH: "n + 1 \<le> overlap_from w1 w2 i j (n + 1)
       \<and> i + overlap_from w1 w2 i j (n + 1) \<le> length w1
       \<and> j + overlap_from w1 w2 i j (n + 1) \<le> length w2
       \<and> (\<forall>t<overlap_from w1 w2 i j (n + 1). w1 ! (i + t) = w2 ! (j + t))
       \<and> \<not> (i + overlap_from w1 w2 i j (n + 1) < length w1 \<and> j + overlap_from w1 w2 i j (n + 1) < length w2
            \<and> w1 ! (i + overlap_from w1 w2 i j (n + 1)) = w2 ! (j + overlap_from w1 w2 i j (n + 1)))"
      using "1.IH" True by blast
    have eq: "overlap_from w1 w2 i j n = overlap_from w1 w2 i j (n + 1)"
      using True by (subst overlap_from.simps) simp
    show ?thesis unfolding eq using IH by auto
  next
    case False
    then have eq: "overlap_from w1 w2 i j n = n"
      by (subst overlap_from.simps) auto
    show ?thesis unfolding eq using "1.prems" False by auto
  qed
qed

lemma overlap_from_le_iff:
  assumes "i \<le> length w1" "j \<le> length w2"
  shows "k \<le> overlap_from w1 w2 i j 0 \<longleftrightarrow>
         i + k \<le> length w1 \<and> j + k \<le> length w2 \<and> (\<forall>t<k. w1 ! (i + t) = w2 ! (j + t))"
proof -
  let ?r = "overlap_from w1 w2 i j 0"
  have s: "i + ?r \<le> length w1" "j + ?r \<le> length w2" "\<forall>t<?r. w1 ! (i + t) = w2 ! (j + t)"
    "\<not> (i + ?r < length w1 \<and> j + ?r < length w2 \<and> w1 ! (i + ?r) = w2 ! (j + ?r))"
    using overlap_from_spec [of 0 w1 i w2 j] assms by auto
  show ?thesis
  proof
    assume "k \<le> ?r"
    with s show "i + k \<le> length w1 \<and> j + k \<le> length w2 \<and> (\<forall>t<k. w1 ! (i + t) = w2 ! (j + t))"
      by auto
  next
    assume h: "i + k \<le> length w1 \<and> j + k \<le> length w2 \<and> (\<forall>t<k. w1 ! (i + t) = w2 ! (j + t))"
    show "k \<le> ?r"
    proof (rule ccontr)
      assume "\<not> k \<le> ?r"
      then have "?r < k" by simp
      with h have "i + ?r < length w1" "j + ?r < length w2" "w1 ! (i + ?r) = w2 ! (j + ?r)"
        by auto
      with s(4) show False by simp
    qed
  qed
qed

lemma take_drop_eq_iff:
  assumes "i + k \<le> length w1" "j + k \<le> length w2"
  shows "take k (drop i w1) = take k (drop j w2) \<longleftrightarrow> (\<forall>t<k. w1 ! (i + t) = w2 ! (j + t))"
  using assms by (auto simp: list_eq_iff_nth_eq)

lemma fold_max_le_iff:
  "(k::nat) \<le> fold (\<lambda>x m. max m (f x)) xs m0 \<longleftrightarrow> k \<le> m0 \<or> (\<exists>x\<in>set xs. k \<le> f x)"
  by (induction xs arbitrary: m0) (auto simp: le_max_iff_disj)

lemma fold_fold_max_le_iff:
  "(k::nat) \<le> fold (\<lambda>x m. fold (\<lambda>y m. max m (g x y)) ys m) xs m0
     \<longleftrightarrow> k \<le> m0 \<or> (\<exists>x\<in>set xs. \<exists>y\<in>set ys. k \<le> g x y)"
  by (induction xs arbitrary: m0) (auto simp: fold_max_le_iff)

lemma max_run_le_iff: "k \<le> max_run w1 w2 \<longleftrightarrow> shares_run k w1 w2"
proof (cases k)
  case 0
  then show ?thesis by (auto simp: shares_run_def intro: exI [of _ 0])
next
  case (Suc k')
  have "k \<le> max_run w1 w2 \<longleftrightarrow> (\<exists>i<length w1. \<exists>j<length w2. k \<le> overlap_from w1 w2 i j 0)"
    by (simp add: max_run_def fold_fold_max_le_iff Suc Bex_def)
  also have "\<dots> \<longleftrightarrow> (\<exists>i<length w1. \<exists>j<length w2.
      i + k \<le> length w1 \<and> j + k \<le> length w2 \<and> (\<forall>t<k. w1 ! (i + t) = w2 ! (j + t)))"
    by (simp add: overlap_from_le_iff cong: conj_cong)
  also have "\<dots> \<longleftrightarrow> (\<exists>i j. i + k \<le> length w1 \<and> j + k \<le> length w2 \<and> (\<forall>t<k. w1 ! (i + t) = w2 ! (j + t)))"
    (is "?L \<longleftrightarrow> ?R")
  proof
    assume ?L
    then show ?R by blast
  next
    assume ?R
    then obtain i j where h: "i + k \<le> length w1" "j + k \<le> length w2" "\<forall>t<k. w1 ! (i + t) = w2 ! (j + t)"
      by blast
    with Suc have "i < length w1" "j < length w2" by auto
    with h show ?L by blast
  qed
  also have "\<dots> \<longleftrightarrow> shares_run k w1 w2"
    unfolding shares_run_def using take_drop_eq_iff [of _ k w1 _ w2] by blast
  finally show ?thesis .
qed

lemma overlap_ge_iff:
  assumes "t1 \<noteq> []" "t2 \<noteq> []"
  shows "min_overlap \<le> int (find_title_overlap t1 t2) \<longleftrightarrow> duplicate_title min_overlap t1 t2"
proof
  assume "min_overlap \<le> int (find_title_overlap t1 t2)"
  moreover have "shares_run (find_title_overlap t1 t2) (title_words t1) (title_words t2)"
    using assms max_run_le_iff [of "find_title_overlap t1 t2" "title_words t1" "title_words t2"]
    by (simp add: find_title_overlap_def title_words_def)
  ultimately show "duplicate_title min_overlap t1 t2"
    unfolding duplicate_title_def by blast
next
  assume "duplicate_title min_overlap t1 t2"
  then obtain k where k: "min_overlap \<le> int k" "shares_run k (title_words t1) (title_words t2)"
    unfolding duplicate_title_def by blast
  then have "k \<le> find_title_overlap t1 t2"
    using assms max_run_le_iff [of k "title_words t1" "title_words t2"]
    by (simp add: find_title_overlap_def title_words_def)
  with k(1) show "min_overlap \<le> int (find_title_overlap t1 t2)" by linarith
qed

lemma first_published_find:
  "t \<noteq> [] \<Longrightarrow> first_published t m ns = List.find (qualifies m t) ns"
  by (induction ns) (auto simp: qualifies_def overlap_ge_iff Let_def)

lemma arxiv_to_remove_iff:
  "x \<in> arxiv_to_remove as ns m \<longleftrightarrow>
     (\<exists>a\<in>set as. or_empty (d_title a) \<noteq> [] \<and> first_published (or_empty (d_title a)) m ns \<noteq> None \<and> d_id a = x)"
  by (induction as) (auto simp: Let_def split: option.splits)

lemma first_published_iff:
  "t \<noteq> [] \<Longrightarrow> first_published t m ns \<noteq> None \<longleftrightarrow> (\<exists>n\<in>set ns. qualifies m t n)"
  by (auto simp: first_published_find find_None_iff)

lemma marked_iff:
  "marked cs m a \<longleftrightarrow>
     is_CoRR a \<and> or_empty (d_title a) \<noteq> []
     \<and> first_published (or_empty (d_title a)) m (filter (\<lambda>c. \<not> is_CoRR c) cs) \<noteq> None"
  unfolding marked_def using first_published_iff [of "or_empty (d_title a)" m "filter (\<lambda>c. \<not> is_CoRR c) cs"]
  by auto

lemma removed_ids_iff:
  "x \<in> arxiv_to_remove (filter is_CoRR cs) (filter (\<lambda>c. \<not> is_CoRR c) cs) m
     \<longleftrightarrow> (\<exists>a\<in>set cs. marked cs m a \<and> d_id a = x)"
  unfolding arxiv_to_remove_iff marked_iff by auto

lemma remove_arxiv_duplicates_eq:
  "remove_arxiv_duplicates cs m = filter (\<lambda>c. \<not> (\<exists>a\<in>set cs. marked cs m a \<and> d_id a = d_id c)) cs"
  unfolding remove_arxiv_duplicates_def Let_def removed_ids_iff ..

lemma distinct_ids_marked:
  assumes "distinct (map d_id cs)" "c \<in> set cs"
  shows "(\<exists>a\<in>set cs. marked cs m a \<and> d_id a = d_id c) \<longleftrightarrow> marked cs m c"
proof -
  have "inj_on d_id (set cs)" using assms(1) by (simp add: distinct_map)
  then have "\<And>a. a \<in> set cs \<Longrightarrow> d_id a = d_id c \<Longrightarrow> a = c"
    using assms(2) by (auto dest: inj_onD)
  then show ?thesis using assms(2) by blast
qed

text \<open>
  C1, amended. For an arXiv citation with a title that is not empty, the inner loop
  stops at the first citation of the other part whose title is not empty and shares with
  it a run of at least \<open>min_overlap\<close> identical consecutive lower-cased words, the overlap
  computed being the length of the longest shared run; the citation is marked exactly when
  there is such a citation. The set collected is the set of the ids of the marked
  citations, and the result is the original sequence, in its order and with its entries
  as they were, without every citation whose id is the id of a marked citation. Where
  the ids are pairwise distinct these are the marked citations themselves. Under the
  threshold 6, which \<^verbatim>\<open>save_yaml\<close> uses, a shared run of 5 words removes nothing and a
  shared run of 6 words removes the arXiv citation.
\<close>

theorem remove_arxiv_duplicates_by_id:
  "(\<forall>t ns. t \<noteq> [] \<longrightarrow> first_published t min_overlap ns = List.find (qualifies min_overlap t) ns)
   \<and> (\<forall>t1 t2 k. t1 \<noteq> [] \<and> t2 \<noteq> []
        \<longrightarrow> (k \<le> find_title_overlap t1 t2 \<longleftrightarrow> shares_run k (title_words t1) (title_words t2)))
   \<and> (\<forall>x. x \<in> arxiv_to_remove (filter is_CoRR citations) (filter (\<lambda>c. \<not> is_CoRR c) citations) min_overlap
          \<longleftrightarrow> (\<exists>a\<in>set citations. marked citations min_overlap a \<and> d_id a = x))
   \<and> remove_arxiv_duplicates citations min_overlap
        = filter (\<lambda>c. \<not> (\<exists>a\<in>set citations. marked citations min_overlap a \<and> d_id a = d_id c)) citations
   \<and> (distinct (map d_id citations)
        \<longrightarrow> remove_arxiv_duplicates citations min_overlap = minus_marked citations min_overlap)
   \<and> remove_arxiv_duplicates [gnn_arxiv, gnn_published] 6 = [gnn_arxiv, gnn_published]
   \<and> remove_arxiv_duplicates [on_gnn_arxiv, on_gnn_published] 6 = [on_gnn_published]"
proof (intro conjI allI impI)
  fix t :: string and ns assume "t \<noteq> []"
  then show "first_published t min_overlap ns = List.find (qualifies min_overlap t) ns"
    by (rule first_published_find)
next
  fix t1 t2 :: string and k assume "t1 \<noteq> [] \<and> t2 \<noteq> []"
  then show "k \<le> find_title_overlap t1 t2 \<longleftrightarrow> shares_run k (title_words t1) (title_words t2)"
    by (simp add: find_title_overlap_def title_words_def max_run_le_iff)
next
  fix x
  show "x \<in> arxiv_to_remove (filter is_CoRR citations) (filter (\<lambda>c. \<not> is_CoRR c) citations) min_overlap
          \<longleftrightarrow> (\<exists>a\<in>set citations. marked citations min_overlap a \<and> d_id a = x)"
    by (rule removed_ids_iff)
next
  show "remove_arxiv_duplicates citations min_overlap
        = filter (\<lambda>c. \<not> (\<exists>a\<in>set citations. marked citations min_overlap a \<and> d_id a = d_id c)) citations"
    by (rule remove_arxiv_duplicates_eq)
next
  assume "distinct (map d_id citations)"
  then show "remove_arxiv_duplicates citations min_overlap = minus_marked citations min_overlap"
    unfolding remove_arxiv_duplicates_eq minus_marked_def
    by (intro filter_cong refl) (simp add: distinct_ids_marked)
next
  show "remove_arxiv_duplicates [gnn_arxiv, gnn_published] 6 = [gnn_arxiv, gnn_published]"
    by code_simp
next
  show "remove_arxiv_duplicates [on_gnn_arxiv, on_gnn_published] 6 = [on_gnn_published]"
    by code_simp
qed

theorem remove_arxiv_duplicates_by_id_witness:
  "remove_arxiv_duplicates [on_gnn_arxiv, on_gnn_published] 6
     = minus_marked [on_gnn_arxiv, on_gnn_published] 6
   \<and> first_published ''On Deep Learning for Graph Neural Networks'' 6 [on_gnn_published]
     = List.find (qualifies 6 ''On Deep Learning for Graph Neural Networks'') [on_gnn_published]
   \<and> (6 \<le> find_title_overlap ''On Deep Learning for Graph Neural Networks''
             ''On Deep Learning for Graph Neural Network Applications''
      \<longleftrightarrow> shares_run 6 (title_words ''On Deep Learning for Graph Neural Networks'')
             (title_words ''On Deep Learning for Graph Neural Network Applications''))"
proof -
  have d: "distinct (map d_id [on_gnn_arxiv, on_gnn_published])"
    by code_simp
  have n: "''On Deep Learning for Graph Neural Networks'' \<noteq> []"
    "''On Deep Learning for Graph Neural Networks'' \<noteq> []
     \<and> ''On Deep Learning for Graph Neural Network Applications'' \<noteq> []"
    by simp_all
  note t = remove_arxiv_duplicates_by_id [of 6 "[on_gnn_arxiv, on_gnn_published]"]
  from t d have 1: "remove_arxiv_duplicates [on_gnn_arxiv, on_gnn_published] 6
     = minus_marked [on_gnn_arxiv, on_gnn_published] 6"
    by blast
  from t n(1) have 2: "first_published ''On Deep Learning for Graph Neural Networks'' 6 [on_gnn_published]
     = List.find (qualifies 6 ''On Deep Learning for Graph Neural Networks'') [on_gnn_published]"
    by blast
  from t n(2) have 3: "6 \<le> find_title_overlap ''On Deep Learning for Graph Neural Networks''
             ''On Deep Learning for Graph Neural Network Applications''
      \<longleftrightarrow> shares_run 6 (title_words ''On Deep Learning for Graph Neural Networks'')
             (title_words ''On Deep Learning for Graph Neural Network Applications'')"
    by blast
  from 1 2 3 show ?thesis by blast
qed

text \<open>
  C1 as stated fails where ids are shared: the preprint and the published version below
  carry the same id (the same BibTeX key in two files, with no other identifier). Only
  the preprint is marked, and the result loses both.
\<close>

theorem shared_id_counterexample:
  "remove_arxiv_duplicates [he2016_arxiv, he2016_cvpr] 6 = []
   \<and> minus_marked [he2016_arxiv, he2016_cvpr] 6 = [he2016_cvpr]"
proof -
  have 1: "remove_arxiv_duplicates [he2016_arxiv, he2016_cvpr] 6 = []"
    by code_simp
  have a: "marked [he2016_arxiv, he2016_cvpr] 6 he2016_arxiv"
    unfolding marked_iff by code_simp
  have "\<not> is_CoRR he2016_cvpr"
    by code_simp
  then have c: "\<not> marked [he2016_arxiv, he2016_cvpr] 6 he2016_cvpr"
    by (simp add: marked_def)
  from a c have 2: "minus_marked [he2016_arxiv, he2016_cvpr] 6 = [he2016_cvpr]"
    by (simp add: minus_marked_def)
  from 1 2 show ?thesis by simp
qed

text \<open>
  C10. A citation is in the result exactly when it is in the input and its id is not the
  id of a marked arXiv citation: a citation that is not from arXiv and shares its id
  with a marked arXiv citation is dropped with it.
\<close>

theorem removal_by_id_equality:
  "(c \<in> set (remove_arxiv_duplicates citations min_overlap)
      \<longleftrightarrow> c \<in> set citations \<and> \<not> (\<exists>a\<in>set citations. marked citations min_overlap a \<and> d_id a = d_id c))
   \<and> (\<forall>a n. a \<in> set citations \<and> marked citations min_overlap a \<and> \<not> is_CoRR n \<and> d_id n = d_id a
         \<longrightarrow> n \<notin> set (remove_arxiv_duplicates citations min_overlap))"
  unfolding remove_arxiv_duplicates_eq by auto

theorem removal_by_id_equality_witness:
  "devlin2019_arxiv \<in> set [devlin2019_arxiv, devlin2019_naacl]
   \<and> marked [devlin2019_arxiv, devlin2019_naacl] 6 devlin2019_arxiv
   \<and> \<not> is_CoRR devlin2019_naacl
   \<and> d_id devlin2019_naacl = d_id devlin2019_arxiv
   \<and> devlin2019_naacl \<notin> set (remove_arxiv_duplicates [devlin2019_arxiv, devlin2019_naacl] 6)"
proof -
  have a: "devlin2019_arxiv \<in> set [devlin2019_arxiv, devlin2019_naacl]"
    by simp
  have m: "marked [devlin2019_arxiv, devlin2019_naacl] 6 devlin2019_arxiv"
    unfolding marked_iff by code_simp
  have n: "\<not> is_CoRR devlin2019_naacl" "d_id devlin2019_naacl = d_id devlin2019_arxiv"
    by code_simp+
  from removal_by_id_equality [of devlin2019_naacl "[devlin2019_arxiv, devlin2019_naacl]" 6] a m n
  have "devlin2019_naacl \<notin> set (remove_arxiv_duplicates [devlin2019_arxiv, devlin2019_naacl] 6)"
    by blast
  with a m n show ?thesis by blast
qed


subsection \<open>Sorting\<close>






subsection \<open>Year parsing\<close>

lemma digit_not_space: "is_digit c \<Longrightarrow> \<not> is_int_space c"
  by (auto simp: is_digit_def is_int_space_def)

lemma sign_not_space: "\<not> is_int_space CHR ''+''" "\<not> is_int_space CHR ''-''"
  by (simp_all add: is_int_space_def)

lemma digit_not_sign: "is_digit c \<Longrightarrow> c \<noteq> CHR ''+'' \<and> c \<noteq> CHR ''-'' \<and> c \<noteq> CHR ''_''"
  by (auto simp: is_digit_def)

lemma digits_from_digits:
  "list_all is_digit s \<Longrightarrow> digits_from n s = Some (foldl (\<lambda>n c. 10 * n + digit_val c) n s)"
  by (induction n s rule: digits_from.induct) auto

lemma py_digits_digits: "isdigit s \<Longrightarrow> py_digits s = Some (int_of_digits s)"
  by (cases s) (auto simp: isdigit_def py_digits_def int_of_digits_def digits_from_digits)



lemma int_strip_around:
  assumes "list_all is_int_space w1" "list_all is_int_space w2" "x \<noteq> []"
    "\<not> is_int_space (hd x)" "\<not> is_int_space (last x)"
  shows "int_strip (w1 @ x @ w2) = x"
proof -
  have a: "dropWhile is_int_space (w1 @ x @ w2) = x @ w2"
    using assms(1,3,4) by (cases x) (auto simp: dropWhile_append list_all_iff)
  have b: "dropWhile is_int_space (rev w2 @ rev x) = rev x"
    using assms(2,3,5) by (cases x rule: rev_cases) (auto simp: dropWhile_append list_all_iff)
  show ?thesis by (simp add: int_strip_def a b)
qed


lemma py_int_digits:
  assumes "isdigit ds" "list_all is_int_space w1" "list_all is_int_space w2"
  shows "py_int (w1 @ ds @ w2) = Some (int (int_of_digits ds))"
    and "py_int (w1 @ ''+'' @ ds @ w2) = Some (int (int_of_digits ds))"
    and "py_int (w1 @ ''-'' @ ds @ w2) = Some (- int (int_of_digits ds))"
proof -
  from assms(1) obtain c cs where ds: "ds = c # cs" "is_digit c" "is_digit (last ds)"
    by (cases ds) (auto simp: isdigit_def list_all_iff)
  have l: "\<not> is_int_space (last ds)" using ds(3) by (rule digit_not_space)
  have 1: "int_strip (w1 @ ds @ w2) = ds"
    using assms(2,3) ds digit_not_space l by (intro int_strip_around) auto
  have 2: "int_strip (w1 @ (''+'' @ ds) @ w2) = ''+'' @ ds"
    using assms(2,3) ds l by (intro int_strip_around) (auto simp: sign_not_space)
  have 3: "int_strip (w1 @ (''-'' @ ds) @ w2) = ''-'' @ ds"
    using assms(2,3) ds l by (intro int_strip_around) (auto simp: sign_not_space)
  show "py_int (w1 @ ds @ w2) = Some (int (int_of_digits ds))"
    unfolding py_int_def 1 using ds(2) digit_not_sign [of c] py_digits_digits [OF assms(1)]
    by (simp add: ds(1))
  show "py_int (w1 @ ''+'' @ ds @ w2) = Some (int (int_of_digits ds))"
    using 2 py_digits_digits [OF assms(1)] by (simp add: py_int_def)
  show "py_int (w1 @ ''-'' @ ds @ w2) = Some (- int (int_of_digits ds))"
    using 3 py_digits_digits [OF assms(1)] by (simp add: py_int_def)
qed







subsection \<open>The id of a citation\<close>

lemma type_value_no_colon: "CHR '':'' \<notin> set (type_value ct)"
  by (cases ct) simp_all

lemma type_value_not_empty: "type_value ct \<noteq> []"
  by (cases ct) simp_all

lemma takeWhile_prefix: "CHR '':'' \<notin> set xs \<Longrightarrow> takeWhile (\<lambda>x. x \<noteq> CHR '':'') (xs @ '':'' @ ys) = xs"
  by (induction xs) auto

lemma new_ManubotCitation_colon: "CHR '':'' \<in> set (m_id c) \<Longrightarrow> new_ManubotCitation c = Inr c"
  by (simp add: new_ManubotCitation_def validate_manubot_id_def)

lemma new_ManubotCitation_no_colon:
  "CHR '':'' \<notin> set (m_id c) \<Longrightarrow>
     new_ManubotCitation c = Inl (ValueError ''Manubot ID must contain a colon separator'')"
  by (simp add: new_ManubotCitation_def validate_manubot_id_def)

lemma convert_entry_success:
  assumes "success (convert_entry up cl pr e)"
  shows "\<exists>ct ident c. extract_best_identifier up pr e = Some (ct, ident) \<and> ident \<noteq> []
           \<and> manubot_citation (convert_entry up cl pr e) = Some c
           \<and> m_id c = type_value ct @ '':'' @ ident \<and> citation_type c = ct \<and> m_identifier c = ident"
proof (cases "extract_best_identifier up pr e")
  case None
  with assms show ?thesis by (simp add: convert_entry_def)
next
  case (Some r)
  obtain ct ident where r: "r = (ct, ident)" by (cases r)
  show ?thesis
  proof (cases "ident = []")
    case True
    with assms Some r show ?thesis by (simp add: convert_entry_def)
  next
    case False
    show ?thesis
    proof (cases "generate_publication_date (year e) (month e) (day e)")
      case (Inl x)
      with assms Some r False show ?thesis by (simp add: convert_entry_def)
    next
      case (Inr d)
      with assms Some r False show ?thesis
        by (simp add: convert_entry_def new_ManubotCitation_colon)
    qed
  qed
qed

text \<open>
  C5, amended. The citation of every successful conversion has the id made of the value
  of its family, a colon and its identifier, which is not empty. No family value holds a
  colon, so the text before the first colon of the id is the family, and the id holds at
  least one colon; the identifier may hold more. The dictionary written for it has this
  id and the value of the family as its type, neither empty. The validator rejects an id
  without any colon, and nothing else.
\<close>

theorem citation_id_has_family_prefix:
  "(success (convert_entry up cl pr e) \<longrightarrow>
      (\<exists>c. manubot_citation (convert_entry up cl pr e) = Some c
          \<and> m_id c = type_value (citation_type c) @ '':'' @ m_identifier c
          \<and> m_identifier c \<noteq> []
          \<and> takeWhile (\<lambda>x. x \<noteq> CHR '':'') (m_id c) = type_value (citation_type c)
          \<and> 1 \<le> count_list (m_id c) CHR '':''
          \<and> d_id (to_dict b c) = Some (m_id c) \<and> m_id c \<noteq> []
          \<and> d_type (to_dict b c) = Some (type_value (citation_type c))
          \<and> type_value (citation_type c) \<noteq> []))
   \<and> (\<forall>c. CHR '':'' \<notin> set (m_id c) \<longrightarrow>
          new_ManubotCitation c = Inl (ValueError ''Manubot ID must contain a colon separator''))
   \<and> (\<forall>c. CHR '':'' \<in> set (m_id c) \<longrightarrow> new_ManubotCitation c = Inr c)"
proof (intro conjI allI impI)
  assume "success (convert_entry up cl pr e)"
  then obtain ct ident c where c: "ident \<noteq> []"
      "manubot_citation (convert_entry up cl pr e) = Some c"
      "m_id c = type_value ct @ '':'' @ ident" "citation_type c = ct" "m_identifier c = ident"
    using convert_entry_success by blast
  have "takeWhile (\<lambda>x. x \<noteq> CHR '':'') (m_id c) = type_value (citation_type c)"
    unfolding c(3) c(4) by (rule takeWhile_prefix) (rule type_value_no_colon)
  moreover have "1 \<le> count_list (m_id c) CHR '':''"
    by (simp add: c(3))
  ultimately show "\<exists>c. manubot_citation (convert_entry up cl pr e) = Some c
          \<and> m_id c = type_value (citation_type c) @ '':'' @ m_identifier c
          \<and> m_identifier c \<noteq> []
          \<and> takeWhile (\<lambda>x. x \<noteq> CHR '':'') (m_id c) = type_value (citation_type c)
          \<and> 1 \<le> count_list (m_id c) CHR '':''
          \<and> d_id (to_dict b c) = Some (m_id c) \<and> m_id c \<noteq> []
          \<and> d_type (to_dict b c) = Some (type_value (citation_type c))
          \<and> type_value (citation_type c) \<noteq> []"
    using c by (auto simp: to_dict_def type_value_not_empty)
next
  fix c :: ManubotCitation assume "CHR '':'' \<notin> set (m_id c)"
  then show "new_ManubotCitation c = Inl (ValueError ''Manubot ID must contain a colon separator'')"
    by (rule new_ManubotCitation_no_colon)
next
  fix c :: ManubotCitation assume "CHR '':'' \<in> set (m_id c)"
  then show "new_ManubotCitation c = Inr c"
    by (rule new_ManubotCitation_colon)
qed

theorem citation_id_has_family_prefix_witness:
  "(\<exists>c. manubot_citation (convert_entry (\<lambda>u. None) (\<lambda>s. s) default_priority smith2020) = Some c
       \<and> takeWhile (\<lambda>x. x \<noteq> CHR '':'') (m_id c) = type_value (citation_type c)
       \<and> d_id (to_dict True c) = Some (m_id c))
   \<and> new_ManubotCitation (mislabelled\<lparr>m_id := ''10.1234/example''\<rparr>)
       = Inl (ValueError ''Manubot ID must contain a colon separator'')
   \<and> new_ManubotCitation mislabelled = Inr mislabelled"
proof -
  have s: "success (convert_entry (\<lambda>u. None) (\<lambda>s. s) default_priority smith2020)"
    by code_simp
  have n: "CHR '':'' \<notin> set (m_id (mislabelled\<lparr>m_id := ''10.1234/example''\<rparr>))"
    by code_simp
  have y: "CHR '':'' \<in> set (m_id mislabelled)"
    by code_simp
  note T = citation_id_has_family_prefix [of "\<lambda>u. None" "\<lambda>s. s" default_priority smith2020 True]
  from T s have 1: "\<exists>c. manubot_citation (convert_entry (\<lambda>u. None) (\<lambda>s. s) default_priority smith2020) = Some c
       \<and> takeWhile (\<lambda>x. x \<noteq> CHR '':'') (m_id c) = type_value (citation_type c)
       \<and> d_id (to_dict True c) = Some (m_id c)"
    by blast
  from T n have 2: "new_ManubotCitation (mislabelled\<lparr>m_id := ''10.1234/example''\<rparr>)
       = Inl (ValueError ''Manubot ID must contain a colon separator'')"
    by blast
  from T y have 3: "new_ManubotCitation mislabelled = Inr mislabelled"
    by blast
  from 1 2 3 show ?thesis by blast
qed

text \<open>
  C5 as stated fails: the id built from a key that holds colons holds more than one,
  in the citation and in the dictionary written for it; and the construction of a citation
  accepts an id with several colons whose prefix is not the family of the citation.
\<close>

theorem two_colons_counterexample:
  "success (convert_entry (\<lambda>u. None) (\<lambda>s. s) default_priority vaswani)
   \<and> map_option m_id (manubot_citation (convert_entry (\<lambda>u. None) (\<lambda>s. s) default_priority vaswani))
       = Some ''raw:DBLP:conf/nips/VaswaniSPUJGKP17''
   \<and> map_option (d_id \<circ> to_dict True) (manubot_citation (convert_entry (\<lambda>u. None) (\<lambda>s. s) default_priority vaswani))
       = Some (Some ''raw:DBLP:conf/nips/VaswaniSPUJGKP17'')
   \<and> count_list ''raw:DBLP:conf/nips/VaswaniSPUJGKP17'' CHR '':'' = 2
   \<and> new_ManubotCitation mislabelled = Inr mislabelled
   \<and> count_list (m_id mislabelled) CHR '':'' = 2
   \<and> takeWhile (\<lambda>x. x \<noteq> CHR '':'') (m_id mislabelled) \<noteq> type_value (citation_type mislabelled)"
  by code_simp


subsection \<open>The publication date\<close>

lemma digit_val_digit_char: "k < 10 \<Longrightarrow> digit_val (digit_char k) = k"
proof -
  assume "k < 10"
  then consider "k = 0" | "k = 1" | "k = 2" | "k = 3" | "k = 4" | "k = 5" | "k = 6" | "k = 7" | "k = 8" | "k = 9"
    by atomize_elim arith
  then show ?thesis
    by cases (simp_all add: digit_val_def digit_char_def upt_rec)
qed

lemma digit_char_mod: "digit_char n = digit_char (n mod 10)"
  by (simp add: digit_char_def)

lemma two_digits_value:
  assumes "n < 100"
  shows "int_of_digits (two_digits n) = n"
proof (cases "n < 10")
  case True
  have z: "digit_val CHR ''0'' = 0" by (simp add: digit_val_def upt_rec)
  from True show ?thesis
    by (simp add: two_digits_def int_of_digits_def digit_val_digit_char z)
next
  case False
  with assms have d: "n div 10 < 10" by simp
  have "str_nat n = [digit_char (n div 10), digit_char n]"
    using False d by (subst str_nat.simps) simp
  then have "int_of_digits (two_digits n) = 10 * digit_val (digit_char (n div 10)) + digit_val (digit_char (n mod 10))"
    using False digit_char_mod [of n] by (simp add: two_digits_def int_of_digits_def)
  then show ?thesis using d by (simp add: digit_val_digit_char)
qed

lemma month_mapping_value:
  assumes "map_of month_mapping m = Some v"
  shows "1 \<le> int_of_digits v \<and> int_of_digits v \<le> 12"
proof -
  have "list_all (\<lambda>v. 1 \<le> int_of_digits v \<and> int_of_digits v \<le> 12) (map snd month_mapping)"
    by code_simp
  moreover have "v \<in> set (map snd month_mapping)"
    using assms by (force dest: map_of_SomeD)
  ultimately show ?thesis unfolding list_all_iff by blast
qed

lemma default_values:
  "int_of_digits default_month = 6" "int_of_digits default_day = 15"
  by code_simp+

lemma parse_month_range: "1 \<le> int_of_digits (parse_month m) \<and> int_of_digits (parse_month m) \<le> 12"
proof (cases "truthy m")
  case False
  then show ?thesis by (simp add: parse_month_def default_values)
next
  case True
  let ?t = "lower (strip (or_empty m))"
  show ?thesis
  proof (cases "map_of month_mapping ?t")
    case (Some v)
    with True show ?thesis using month_mapping_value [OF Some] by (simp add: parse_month_def)
  next
    case None
    with True show ?thesis
      by (simp add: parse_month_def Let_def default_values two_digits_value)
  qed
qed

lemma parse_day_range: "1 \<le> int_of_digits (parse_day d) \<and> int_of_digits (parse_day d) \<le> 31"
  by (simp add: parse_day_def Let_def default_values two_digits_value)

text \<open>
  For a year that is not zero and fits a C \<^verbatim>\<open>int\<close> the date is the year, the month
  parsed or 06, and the day parsed or 15, the day replaced by the fixed last day of the
  month (28, 30 or 31) where the constructor of \<^verbatim>\<open>datetime\<close> rejects the three.
\<close>

lemma publication_date_in_range:
  assumes "- (2 ^ 31) \<le> y" "y < 2 ^ 31" "y \<noteq> 0"
  shows "generate_publication_date (Some y) m d =
           Inr (Some (date_text y (parse_month m)
             (if 1 \<le> y \<and> y \<le> 9999
                 \<and> int_of_digits (parse_day d) \<le> days_in_month y (int_of_digits (parse_month m))
              then parse_day d else last_day (parse_month m))))"
proof -
  have r: "\<not> (y < - (2 ^ 63) \<or> 2 ^ 63 \<le> y)" "\<not> 2 ^ 31 \<le> y" "\<not> y < - (2 ^ 31)"
    using assms by simp_all
  show ?thesis
    using assms(3) r parse_month_range [of m] parse_day_range [of d]
    by (simp add: generate_publication_date_def datetime_def Let_def)
qed

lemma publication_date_absent:
  "generate_publication_date None m d = Inr None" "generate_publication_date (Some 0) m d = Inr None"
  by (simp_all add: generate_publication_date_def)

lemma publication_date_examples:
  "generate_publication_date (Some 2021) None None = Inr (Some ''2021-06-15'')"
  "generate_publication_date (Some 2020) (Some ''February'') (Some ''31'') = Inr (Some ''2020-02-28'')"
  by code_simp+

lemma far_future_fields:
  "key far_future = ''smith2020''"
  "doi far_future = Some ''10.1234/example''"
  "month far_future = None" "day far_future = None"
  "year far_future = py_int ''2147483648''"
  by (simp_all add: far_future_def extract_common_fields_def Let_def lowered_def lower_def
        lower_char_def uppers_def lowers_def)

lemma far_future_year: "year far_future = Some 2147483648"
proof -
  have "isdigit ''2147483648''" by code_simp
  then have "py_int ''2147483648'' = Some (int (int_of_digits ''2147483648''))"
    using py_int_digits(1) [of "''2147483648''" "[]" "[]"] by simp
  moreover have "int_of_digits ''2147483648'' = 2147483648"
    by (simp add: int_of_digits_def digit_val_def upt_rec)
  ultimately show ?thesis by (simp add: far_future_fields)
qed

text \<open>
  C6. The date is generated without failing only while the year fits a C \<^verbatim>\<open>int\<close>:
  the source catches \<^verbatim>\<open>ValueError\<close> around the constructor of \<^verbatim>\<open>datetime\<close>, and for
  a year from 2147483648 on the constructor raises \<^verbatim>\<open>OverflowError\<close>, which leaves the
  function. The conversion of a record with a valid DOI and such a year ends as a failure.
\<close>

theorem publication_date_overflow:
  "generate_publication_date (Some 2147483648) None None
     = Inl (OverflowError ''signed integer is greater than maximum'')
   \<and> year far_future = Some 2147483648
   \<and> extract_best_identifier (\<lambda>u. None) default_priority far_future = Some (DOI, ''10.1234/example'')
   \<and> convert_entry (\<lambda>u. None) (\<lambda>s. s) default_priority far_future
       = \<lparr> original_key = ''smith2020'', success = False, manubot_citation = None,
           errors = [''Conversion error: signed integer is greater than maximum''], warnings = [] \<rparr>"
proof -
  have g: "generate_publication_date (Some 2147483648) None None
     = Inl (OverflowError ''signed integer is greater than maximum'')"
    by (simp add: generate_publication_date_def datetime_def parse_month_def parse_day_def
          truthy_def default_values)
  have d: "extract_doi ''10.1234/example'' = Some ''10.1234/example''"
    by code_simp
  have r: "extract_best_identifier (\<lambda>u. None) default_priority far_future = Some (DOI, ''10.1234/example'')"
    by (simp add: default_priority_def far_future_fields truthy_def or_empty_def d)
  have c: "convert_entry (\<lambda>u. None) (\<lambda>s. s) default_priority far_future
       = \<lparr> original_key = ''smith2020'', success = False, manubot_citation = None,
           errors = [''Conversion error: signed integer is greater than maximum''], warnings = [] \<rparr>"
    by (simp add: convert_entry_def r far_future_year far_future_fields(1,3,4) g)
  from g far_future_year r c show ?thesis by simp
qed


subsection \<open>Author parsing\<close>

lemma not_space_a: "\<not> is_space CHR ''a''"
  by (simp add: is_space_def)

lemma sep_at_iff:
  "sep_at s \<longleftrightarrow>
     (\<exists>w1 w2 v. s = w1 @ ''and'' @ w2 @ v \<and> w1 \<noteq> [] \<and> w2 \<noteq> []
        \<and> list_all is_space w1 \<and> list_all is_space w2)"
proof
  assume a: "sep_at s"
  let ?r = "dropWhile is_space s"
  let ?w = "takeWhile is_space s"
  from a have r: "?r \<noteq> s" "take 3 ?r = ''and''" "drop 3 ?r \<noteq> []" "is_space (hd (drop 3 ?r))"
    by (simp_all add: sep_at_def Let_def)
  have "?w \<noteq> []" using r(1) by (cases s) (auto split: if_splits)
  moreover have "list_all is_space ?w" unfolding list_all_iff by (auto dest: set_takeWhileD)
  moreover have "?r = ''and'' @ drop 3 ?r" using r(2) append_take_drop_id [of 3 ?r] by simp
  then have "s = ?w @ ''and'' @ [hd (drop 3 ?r)] @ tl (drop 3 ?r)"
    using r(3) takeWhile_dropWhile_id [of is_space s] by (metis append_Cons append_Nil hd_Cons_tl)
  ultimately show "\<exists>w1 w2 v. s = w1 @ ''and'' @ w2 @ v \<and> w1 \<noteq> [] \<and> w2 \<noteq> []
        \<and> list_all is_space w1 \<and> list_all is_space w2"
    using r(4) by (intro exI [of _ ?w] exI [of _ "[hd (drop 3 ?r)]"] exI [of _ "tl (drop 3 ?r)"]) simp
next
  assume "\<exists>w1 w2 v. s = w1 @ ''and'' @ w2 @ v \<and> w1 \<noteq> [] \<and> w2 \<noteq> []
        \<and> list_all is_space w1 \<and> list_all is_space w2"
  then obtain w1 w2 v where d: "s = w1 @ ''and'' @ w2 @ v" "w1 \<noteq> []" "w2 \<noteq> []"
      "list_all is_space w1" "list_all is_space w2"
    by blast
  have 1: "dropWhile is_space s = ''and'' @ w2 @ v"
    using d(1,4) by (simp add: dropWhile_append list_all_iff not_space_a)
  have "dropWhile is_space s \<noteq> s"
  proof
    assume "dropWhile is_space s = s"
    with 1 have "s = ''and'' @ w2 @ v" by simp
    with d(1) have "w1 @ (''and'' @ w2 @ v) = ''and'' @ w2 @ v" by simp
    then have "w1 = []" by (simp only: append_self_conv2)
    with d(2) show False by simp
  qed
  moreover have "is_space (hd (w2 @ v))" using d(3,5) by (cases w2) auto
  ultimately show "sep_at s" using d(3) by (simp add: sep_at_def Let_def 1)
qed

lemma eat_sound:
  "m \<in> set (eat P (g, p, s)) \<Longrightarrow> \<exists>c. s = c # rest m \<and> P c \<and> fst m = g"
  by (cases s) (auto simp: rest_def split: if_splits)

lemma rep_eat_sound:
  "m \<in> set (rep (eat P) n lo None (g, p, s)) \<Longrightarrow>
     \<exists>w. s = w @ rest m \<and> list_all P w \<and> lo \<le> length w"
proof (induction n arbitrary: lo g p s)
  case 0
  then show ?case by (auto simp: rest_def split: if_splits)
next
  case (Suc n)
  from Suc.prems consider
      (more) m' where "m' \<in> set (eat P (g, p, s))" "m \<in> set (rep (eat P) n (lo - 1) None m')"
    | (stop) "lo = 0" "m = (g, p, s)"
    by (auto split: if_splits)
  then show ?case
  proof cases
    case more
    from eat_sound [OF more(1)] obtain c where c: "s = c # rest m'" "P c" by blast
    obtain g' p' where m': "m' = (g', p', rest m')" by (cases m') (auto simp: rest_def)
    from more(2) m' have "m \<in> set (rep (eat P) n (lo - 1) None (g', p', rest m'))"
      by simp
    from Suc.IH [OF this] obtain w where w: "rest m' = w @ rest m" "list_all P w" "lo - 1 \<le> length w"
      by blast
    from c w have "s = (c # w) @ rest m \<and> list_all P (c # w) \<and> lo \<le> length (c # w)"
      by auto
    then show ?thesis by blast
  next
    case stop
    then show ?thesis by (auto simp: rest_def)
  qed
qed

lemma rmatch_In: "rmatch (In P) False = eat P"
proof -
  have "in_set False P = P" by (rule ext) (simp add: in_set_def)
  then show ?thesis by (intro ext) simp
qed

lemma lit_sound: "m \<in> set (lit False cs (g, p, s)) \<Longrightarrow> s = cs @ rest m"
proof (induction cs arbitrary: g p s)
  case Nil
  then show ?case by (simp add: rest_def)
next
  case (Cons c cs)
  then obtain m' where m': "m' \<in> set (eat (lit_eq False c) (g, p, s))" "m \<in> set (lit False cs m')"
    by auto
  from eat_sound [OF m'(1)] obtain x where x: "s = x # rest m'" "lit_eq False c x" by blast
  obtain g' p' where "m' = (g', p', rest m')" by (cases m') (auto simp: rest_def)
  with m'(2) Cons.IH [of g' p' "rest m'"] have "rest m' = cs @ rest m" by simp
  with x show ?case by (simp add: lit_eq_def)
qed

lemma and_separator_sound:
  assumes "m \<in> set (rmatch and_separator False (g, p, s))"
  shows "\<exists>w1 w2. s = w1 @ ''and'' @ w2 @ rest m \<and> w1 \<noteq> [] \<and> w2 \<noteq> []
           \<and> list_all is_space w1 \<and> list_all is_space w2"
proof -
  from assms have "\<exists>m1 m2. m1 \<in> set (rep (eat is_space) (length s) 1 None (g, p, s))
      \<and> m2 \<in> set (lit False ''and'' m1)
      \<and> m \<in> set (rep (eat is_space) (length (rest m2)) 1 None m2)"
    by (auto simp: and_separator_def seqs_def rplus_def space_def rest_def rmatch_In
          simp del: lit.simps(2)) blast
  then obtain m1 m2 where
      1: "m1 \<in> set (rep (eat is_space) (length s) 1 None (g, p, s))"
      and 2: "m2 \<in> set (lit False ''and'' m1)"
      and 3: "m \<in> set (rep (eat is_space) (length (rest m2)) 1 None m2)"
    by blast
  from rep_eat_sound [OF 1] obtain w1 where w1: "s = w1 @ rest m1" "list_all is_space w1" "1 \<le> length w1"
    by auto
  obtain g1 p1 where m1: "m1 = (g1, p1, rest m1)" by (cases m1) (auto simp: rest_def)
  from 2 m1 lit_sound [of m2 "''and''" g1 p1 "rest m1"] have a: "rest m1 = ''and'' @ rest m2" by simp
  obtain g2 p2 where m2: "m2 = (g2, p2, rest m2)" by (cases m2) (auto simp: rest_def)
  from 3 m2 rep_eat_sound [of m is_space "length (rest m2)" 1 g2 p2 "rest m2"]
  obtain w2 where w2: "rest m2 = w2 @ rest m" "list_all is_space w2" "1 \<le> length w2"
    by auto
  from w1 a w2 have "s = w1 @ ''and'' @ w2 @ rest m \<and> w1 \<noteq> [] \<and> w2 \<noteq> []
           \<and> list_all is_space w1 \<and> list_all is_space w2"
    by auto
  then show ?thesis by blast
qed

lemma scan_no_separator:
  "\<not> has_separator s \<Longrightarrow> scan and_separator False p acc s = [rev acc @ s]"
proof (induction s arbitrary: p acc)
  case Nil
  then show ?case by simp
next
  case (Cons c cs)
  have "rmatch and_separator False (None, p, c # cs) = []"
  proof (rule ccontr)
    assume "rmatch and_separator False (None, p, c # cs) \<noteq> []"
    then obtain m where "m \<in> set (rmatch and_separator False (None, p, c # cs))"
      by (cases "rmatch and_separator False (None, p, c # cs)") auto
    from and_separator_sound [OF this] have "sep_at (c # cs)"
      unfolding sep_at_iff by blast
    with Cons.prems show False by simp
  qed
  moreover have "\<not> has_separator cs" using Cons.prems by simp
  ultimately show ?case using Cons.IH [of "Some c" "c # acc"] by simp
qed

lemma re_split_no_separator: "\<not> has_separator s \<Longrightarrow> re_split and_separator s = [s]"
  by (simp add: re_split_def scan_no_separator)

lemma eat_False: "r = [] \<or> \<not> P (hd r) \<Longrightarrow> eat P (g, p, r) = []"
  by (cases r) auto

lemma rep_eat_head0:
  "list_all P w \<Longrightarrow> r = [] \<or> \<not> P (hd r) \<Longrightarrow> length w \<le> n \<Longrightarrow>
     \<exists>ms. rep (eat P) n 0 None (g, p, w @ r) = (g, (if w = [] then p else Some (last w)), r) # ms"
proof (induction w arbitrary: n p)
  case Nil
  then show ?case by (cases n) (simp_all add: eat_False)
next
  case (Cons c w)
  then obtain n' where n: "n = Suc n'" "length w \<le> n'" by (cases n) auto
  from Cons.prems have "list_all P w" "P c" by simp_all
  from Cons.IH [OF this(1) Cons.prems(2) n(2), of "Some c"]
  obtain ms where "rep (eat P) n' 0 None (g, Some c, w @ r) = (g, (if w = [] then Some c else Some (last w)), r) # ms"
    by blast
  with \<open>P c\<close> n show ?case by simp
qed

lemma rep_eat_head1:
  assumes "list_all P w" "w \<noteq> []" "r = [] \<or> \<not> P (hd r)" "length w \<le> n"
  shows "\<exists>ms. rep (eat P) n 1 None (g, p, w @ r) = (g, Some (last w), r) # ms"
proof -
  from assms obtain c w' where w: "w = c # w'" by (cases w) auto
  with assms obtain n' where n: "n = Suc n'" "length w' \<le> n'" by (cases n) auto
  from assms w have "list_all P w'" "P c" by simp_all
  from rep_eat_head0 [OF this(1) assms(3) n(2), of g "Some c"]
  obtain ms where "rep (eat P) n' 0 None (g, Some c, w' @ r) = (g, (if w' = [] then Some c else Some (last w')), r) # ms"
    by blast
  with \<open>P c\<close> n w show ?thesis by simp
qed

lemma lit_and: "lit False ''and'' (g, p, ''and'' @ r) = [(g, Some CHR ''d'', r)]"
  by (simp add: lit_eq_def)

lemma rmatch_Seq: "rmatch (Seq a b) ic = (\<lambda>st. concat (map (rmatch b ic) (rmatch a ic st)))"
  by (rule ext) simp

lemma rmatch_Rep: "rmatch (Rep lo hi a) ic = (\<lambda>st. rep (rmatch a ic) (length (rest st)) lo hi st)"
  by (rule ext) simp

lemma rmatch_Lit: "rmatch (Lit cs) ic = lit ic cs"
  by (rule ext) simp

lemma concat_map_lit_Nil: "concat (map (lit ic []) xs) = xs"
  by (induction xs) simp_all

lemma and_separator_unfold:
  "rmatch and_separator False st =
     concat (map (\<lambda>m1. concat (map (\<lambda>m2. rep (eat is_space) (length (rest m2)) 1 None m2)
                                   (lit False ''and'' m1)))
                 (rep (eat is_space) (length (rest st)) 1 None st))"
  by (simp only: and_separator_def seqs_def rplus_def space_def foldr.simps comp_def id_apply
        rmatch_Seq rmatch_Rep rmatch_Lit rmatch_In concat_map_lit_Nil)

lemma and_separator_head:
  assumes "list_all is_space w1" "w1 \<noteq> []" "list_all is_space w2" "w2 \<noteq> []"
    "r = [] \<or> \<not> is_space (hd r)"
  shows "\<exists>g' p' ms. rmatch and_separator False (g, p, w1 @ ''and'' @ w2 @ r) = (g', p', r) # ms"
proof -
  let ?s = "w1 @ ''and'' @ w2 @ r"
  let ?F = "\<lambda>m1. concat (map (\<lambda>m2. rep (eat is_space) (length (rest m2)) 1 None m2)
                                   (lit False ''and'' m1))"
  have "\<exists>ms. rep (eat is_space) (length ?s) 1 None (g, p, w1 @ (''and'' @ w2 @ r))
          = (g, Some (last w1), ''and'' @ w2 @ r) # ms"
    using assms(1,2) by (intro rep_eat_head1) (simp_all add: not_space_a)
  then obtain ms1 where 1: "rep (eat is_space) (length (rest (g, p, ?s))) 1 None (g, p, ?s)
          = (g, Some (last w1), ''and'' @ w2 @ r) # ms1"
    by (auto simp: rest_def)
  have "\<exists>ms. rep (eat is_space) (length (w2 @ r)) 1 None (g, Some CHR ''d'', w2 @ r)
          = (g, Some (last w2), r) # ms"
    using assms(3,4,5) by (intro rep_eat_head1) simp_all
  then obtain ms2 where 2: "rep (eat is_space) (length (rest (g, Some CHR ''d'', w2 @ r))) 1 None (g, Some CHR ''d'', w2 @ r)
          = (g, Some (last w2), r) # ms2"
    by (auto simp: rest_def)
  have 3: "?F (g, Some (last w1), ''and'' @ w2 @ r) = (g, Some (last w2), r) # ms2"
    by (simp only: lit_and list.map concat.simps 2 append_Nil2)
  have "rmatch and_separator False (g, p, ?s) = concat (map ?F ((g, Some (last w1), ''and'' @ w2 @ r) # ms1))"
    by (simp only: and_separator_unfold 1)
  also have "\<dots> = ((g, Some (last w2), r) # ms2) @ concat (map ?F ms1)"
    by (simp only: list.map concat.simps 3)
  finally show ?thesis by auto
qed

lemma sep_at_maximal:
  assumes "sep_at s"
  shows "\<exists>w1 w2. s = w1 @ ''and'' @ w2 @ after_sep s \<and> w1 \<noteq> [] \<and> w2 \<noteq> []
           \<and> list_all is_space w1 \<and> list_all is_space w2
           \<and> (after_sep s = [] \<or> \<not> is_space (hd (after_sep s)))"
proof -
  from assms obtain w1 w2 v where d: "s = w1 @ ''and'' @ w2 @ v" "w1 \<noteq> []" "w2 \<noteq> []"
      "list_all is_space w1" "list_all is_space w2"
    unfolding sep_at_iff by blast
  have 1: "dropWhile is_space s = ''and'' @ w2 @ v"
    using d(1,4) by (simp add: dropWhile_append list_all_iff not_space_a)
  let ?w = "takeWhile is_space (w2 @ v)"
  have 2: "after_sep s = dropWhile is_space (w2 @ v)"
    by (simp add: after_sep_def 1)
  have 3: "w2 @ v = ?w @ after_sep s" by (simp add: 2)
  have "?w \<noteq> []" using d(3,5) by (cases w2) auto
  moreover have "list_all is_space ?w"
    unfolding list_all_iff by (auto dest: set_takeWhileD)
  moreover have "after_sep s = [] \<or> \<not> is_space (hd (after_sep s))"
    unfolding 2 using hd_dropWhile [of is_space "w2 @ v"] by auto
  moreover have "s = w1 @ ''and'' @ ?w @ after_sep s" using d(1) 3 by simp
  ultimately show ?thesis using d(2,4) by blast
qed

lemma rmatch_sep_at:
  assumes "sep_at s"
  shows "\<exists>g' p' ms. rmatch and_separator False (g, p, s) = (g', p', after_sep s) # ms"
proof -
  from sep_at_maximal [OF assms] obtain w1 w2 where d: "s = w1 @ ''and'' @ w2 @ after_sep s"
      "w1 \<noteq> []" "w2 \<noteq> []" "list_all is_space w1" "list_all is_space w2"
      "after_sep s = [] \<or> \<not> is_space (hd (after_sep s))"
    by blast
  from and_separator_head [OF d(4) d(2) d(5) d(3) d(6), of g p]
  show ?thesis using d(1) by simp
qed

lemma rmatch_not_sep_at: "\<not> sep_at s \<Longrightarrow> rmatch and_separator False (g, p, s) = []"
proof (rule ccontr)
  assume n: "\<not> sep_at s" and "rmatch and_separator False (g, p, s) \<noteq> []"
  then obtain m where "m \<in> set (rmatch and_separator False (g, p, s))"
    by (cases "rmatch and_separator False (g, p, s)") auto
  from and_separator_sound [OF this] have "sep_at s" unfolding sep_at_iff by blast
  with n show False by simp
qed

lemma after_sep_shorter:
  assumes "sep_at s"
  shows "length (after_sep s) < length s"
proof -
  from sep_at_maximal [OF assms] obtain w1 w2 where d: "s = w1 @ ''and'' @ w2 @ after_sep s"
    by blast
  have "length s = length w1 + 3 + length w2 + length (after_sep s)"
    by (subst d) simp
  then show ?thesis by simp
qed

lemma scan_prev_irrelevant:
  "scan and_separator False p acc s = scan and_separator False p' acc s"
proof (induction "length s" arbitrary: s p p' acc rule: less_induct)
  case less
  show ?case
  proof (cases s)
    case Nil
    then show ?thesis by simp
  next
    case (Cons c cs)
    show ?thesis
    proof (cases "sep_at s")
      case True
      from rmatch_sep_at [OF True, of None p] obtain g1 p1 ms1
        where 1: "rmatch and_separator False (None, p, s) = (g1, p1, after_sep s) # ms1" by blast
      from rmatch_sep_at [OF True, of None p'] obtain g2 p2 ms2
        where 2: "rmatch and_separator False (None, p', s) = (g2, p2, after_sep s) # ms2" by blast
      have "scan and_separator False p1 [] (after_sep s) = scan and_separator False p2 [] (after_sep s)"
        using less [OF after_sep_shorter [OF True]] by blast
      then show ?thesis
        using 1 2 after_sep_shorter [OF True] unfolding Cons by (simp add: rest_def)
    next
      case False
      then show ?thesis
        using rmatch_not_sep_at [of s None p] rmatch_not_sep_at [of s None p'] unfolding Cons by simp
    qed
  qed
qed

lemma evens_scan_sep:
  assumes "sep_at s"
  shows "evens (scan and_separator False p acc s) = rev acc # re_split and_separator (after_sep s)"
proof -
  from assms obtain c cs where s: "s = c # cs" by (cases s) (auto simp: sep_at_def)
  from rmatch_sep_at [OF assms, of None p] obtain g1 p1 ms1
    where 1: "rmatch and_separator False (None, p, s) = (g1, p1, after_sep s) # ms1" by blast
  have "scan and_separator False p1 [] (after_sep s) = scan and_separator False None [] (after_sep s)"
    by (rule scan_prev_irrelevant)
  then show ?thesis
    using 1 after_sep_shorter [OF assms] unfolding s by (simp add: rest_def re_split_def)
qed

lemma scan_not_sep:
  "\<not> sep_at (c # cs) \<Longrightarrow>
     scan and_separator False p acc (c # cs) = scan and_separator False (Some c) (c # acc) cs"
  using rmatch_not_sep_at [of "c # cs" None p] by simp

lemma evens_scan_before:
  "sep_at t \<Longrightarrow> none_before u t \<Longrightarrow>
     evens (scan and_separator False p acc (u @ t)) = (rev acc @ u) # re_split and_separator (after_sep t)"
proof (induction u arbitrary: p acc)
  case Nil
  then show ?case by (simp add: evens_scan_sep)
next
  case (Cons c u)
  then have "\<not> sep_at (c # u @ t)" "none_before u t" by simp_all
  with Cons.IH [OF Cons.prems(1), of "Some c" "c # acc"] show ?case
    by (simp add: scan_not_sep del: scan.simps)
qed

lemma re_split_before:
  "sep_at t \<Longrightarrow> none_before u t \<Longrightarrow>
     re_split and_separator (u @ t) = u # re_split and_separator (after_sep t)"
  using evens_scan_before [of t u None "[]"] by (simp add: re_split_def)

lemma takeWhile_comma:
  "CHR '','' \<notin> set xs \<Longrightarrow> takeWhile (\<lambda>c. c \<noteq> CHR '','') (xs @ '','' @ ys) = xs"
  by (induction xs) auto

lemma dropWhile_comma:
  "CHR '','' \<notin> set xs \<Longrightarrow> dropWhile (\<lambda>c. c \<noteq> CHR '','') (xs @ '','' @ ys) = '','' @ ys"
  by (induction xs) auto

lemma clean_author_cases:
  "strip p = [] \<Longrightarrow> clean_author p = []"
  "strip p \<noteq> [] \<Longrightarrow> CHR '','' \<notin> set (strip p) \<Longrightarrow> clean_author p = [strip p]"
  "strip p = surname @ '','' @ given \<Longrightarrow> CHR '','' \<notin> set surname \<Longrightarrow>
     clean_author p = [strip given @ '' '' @ strip surname]"
proof -
  show "strip p = [] \<Longrightarrow> clean_author p = []"
    by (simp add: clean_author_def)
  show "strip p \<noteq> [] \<Longrightarrow> CHR '','' \<notin> set (strip p) \<Longrightarrow> clean_author p = [strip p]"
    by (simp add: clean_author_def Let_def)
  assume a: "strip p = surname @ '','' @ given" "CHR '','' \<notin> set surname"
  then have "takeWhile (\<lambda>c. c \<noteq> CHR '','') (strip p) = surname"
    and "tl (dropWhile (\<lambda>c. c \<noteq> CHR '','') (strip p)) = given"
    using takeWhile_comma [OF a(2), of given] dropWhile_comma [OF a(2), of given] by simp_all
  with a(1) show "clean_author p = [strip given @ '' '' @ strip surname]"
    by (simp add: clean_author_def Let_def)
qed

lemma clean_author_not_empty: "n \<in> set (clean_author p) \<Longrightarrow> n \<noteq> []"
  by (auto simp: clean_author_def Let_def split: if_splits)

text \<open>
  C8, amended. The author text is cut at the separators made of white space, the word
  \<^verbatim>\<open>and\<close> in small letters and white space, from the left: a text without a separator
  is one piece, and where a separator begins behind \<open>u\<close> and none begins inside \<open>u\<close>, the
  first piece is \<open>u\<close> and the rest is parsed from behind the separator. A piece that is
  empty after trimming is dropped, a trimmed piece without a comma is passed on as it is,
  and a trimmed piece with a comma becomes the trimmed text behind its first comma, a
  space, and the trimmed text before it. No resulting name is empty.
\<close>

theorem parse_authors_splits_on_and:
  "(\<not> has_separator s \<longrightarrow> parse_authors s = clean_author s)
   \<and> (sep_at t \<and> none_before u t
        \<longrightarrow> parse_authors (u @ t) = clean_author u @ parse_authors (after_sep t))
   \<and> (strip p = [] \<longrightarrow> clean_author p = [])
   \<and> (strip p \<noteq> [] \<and> CHR '','' \<notin> set (strip p) \<longrightarrow> clean_author p = [strip p])
   \<and> (\<forall>surname given. strip p = surname @ '','' @ given \<and> CHR '','' \<notin> set surname
        \<longrightarrow> clean_author p = [strip given @ '' '' @ strip surname])
   \<and> (\<forall>n\<in>set (parse_authors s). n \<noteq> [])
   \<and> parse_authors ''John Doe and Jane Smith'' = [''John Doe'', ''Jane Smith'']
   \<and> parse_authors ''Doe, John and Smith, Jane'' = [''John Doe'', ''Jane Smith'']"
proof (intro conjI allI impI ballI)
  assume "\<not> has_separator s"
  then show "parse_authors s = clean_author s"
    by (simp add: parse_authors_def re_split_no_separator)
next
  assume "sep_at t \<and> none_before u t"
  then show "parse_authors (u @ t) = clean_author u @ parse_authors (after_sep t)"
    by (simp add: parse_authors_def re_split_before)
next
  assume "strip p = []"
  then show "clean_author p = []" by (rule clean_author_cases)
next
  assume "strip p \<noteq> [] \<and> CHR '','' \<notin> set (strip p)"
  then show "clean_author p = [strip p]" by (simp add: clean_author_cases)
next
  fix surname given
  assume "strip p = surname @ '','' @ given \<and> CHR '','' \<notin> set surname"
  then show "clean_author p = [strip given @ '' '' @ strip surname]"
    using clean_author_cases(3) by blast
next
  fix n assume "n \<in> set (parse_authors s)"
  then show "n \<noteq> []" by (auto simp: parse_authors_def dest: clean_author_not_empty)
next
  show "parse_authors ''John Doe and Jane Smith'' = [''John Doe'', ''Jane Smith'']"
    by code_simp
next
  show "parse_authors ''Doe, John and Smith, Jane'' = [''John Doe'', ''Jane Smith'']"
    by code_simp
qed

theorem parse_authors_splits_on_and_witness:
  "parse_authors ''Jane Anderson'' = clean_author ''Jane Anderson''
   \<and> parse_authors (''Doe, John'' @ ''  and Jane Smith'')
       = clean_author ''Doe, John'' @ parse_authors ''Jane Smith''
   \<and> clean_author ''   '' = []
   \<and> clean_author '' Jane Smith '' = [''Jane Smith'']
   \<and> clean_author ''Doe, John'' = [''John Doe'']
   \<and> (\<exists>n\<in>set (parse_authors ''Doe, John''). n \<noteq> [])"
proof -
  have a: "\<not> has_separator ''Jane Anderson''"
    by code_simp
  have b: "sep_at ''  and Jane Smith'' \<and> none_before ''Doe, John'' ''  and Jane Smith''"
    "after_sep ''  and Jane Smith'' = ''Jane Smith''"
    by code_simp+
  have c: "strip ''   '' = []"
    by code_simp
  have d: "strip '' Jane Smith '' \<noteq> [] \<and> CHR '','' \<notin> set (strip '' Jane Smith '')" "strip '' Jane Smith '' = ''Jane Smith''"
    by code_simp+
  have e: "strip ''Doe, John'' = ''Doe'' @ '','' @ '' John'' \<and> CHR '','' \<notin> set ''Doe''"
    "strip '' John'' @ '' '' @ strip ''Doe'' = ''John Doe''"
    by code_simp+
  have f: "parse_authors ''Doe, John'' = [''John Doe'']"
    by code_simp
  from parse_authors_splits_on_and [of "''Jane Anderson''" "''  and Jane Smith''" "''Doe, John''" "''   ''"] a b c
  have 1: "parse_authors ''Jane Anderson'' = clean_author ''Jane Anderson''"
    and 2: "parse_authors (''Doe, John'' @ ''  and Jane Smith'')
       = clean_author ''Doe, John'' @ parse_authors ''Jane Smith''"
    and 3: "clean_author ''   '' = []"
    by metis+
  from parse_authors_splits_on_and [of "''Doe, John''" "[]" "[]" "'' Jane Smith ''"] d
  have 4: "clean_author '' Jane Smith '' = [''Jane Smith'']"
    and 6: "\<forall>n\<in>set (parse_authors ''Doe, John''). n \<noteq> []"
    by metis+
  from parse_authors_splits_on_and [of "[]" "[]" "[]" "''Doe, John''"] e
  have 5: "clean_author ''Doe, John'' = [''John Doe'']"
    by metis
  from 6 f have 7: "\<exists>n\<in>set (parse_authors ''Doe, John''). n \<noteq> []" by simp
  from 1 2 3 4 5 7 show ?thesis by blast
qed

text \<open>
  C8 as stated fails: the word \<^verbatim>\<open>and\<close> in capitals or capitalised does not cut, nor
  does the word between word boundaries that are not white space.
\<close>

theorem upper_case_and_counterexample:
  "parse_authors ''John Doe AND Jane Smith'' = [''John Doe AND Jane Smith'']
   \<and> parse_authors ''John Doe And Jane Smith'' = [''John Doe And Jane Smith'']
   \<and> parse_authors ''Doe, John;and;Smith, Jane'' = [''John;and;Smith, Jane Doe'']"
  by code_simp


subsection \<open>The values of the other extractors\<close>

text \<open>
  The other extractors return only values that passed their check: a PMID of 7 or 8
  digits (\<open>extract_pmid_digits\<close> above), a PMCID of \<^verbatim>\<open>PMC\<close> and digits, a DOI that
  \<^verbatim>\<open>validate_doi\<close> accepts, an arXiv id that one of the two forms matches; and every
  extractor returns nothing on the empty text.
\<close>

lemma extract_pmcid_grammar:
  "extract_pmcid t = Some v \<Longrightarrow> \<exists>ds. v = ''PMC'' @ ds \<and> isdigit ds"
proof -
  assume "extract_pmcid t = Some v"
  then have "take 3 v = ''PMC'' \<and> isdigit (drop 3 v)"
    by (auto simp: extract_pmcid_def split: if_splits dest: first_valid_ok)
  then have "v = ''PMC'' @ drop 3 v \<and> isdigit (drop 3 v)"
    using append_take_drop_id [of 3 v] by simp
  then show ?thesis by blast
qed

lemma extract_doi_valid: "extract_doi t = Some v \<Longrightarrow> validate_doi v"
  by (auto simp: extract_doi_def split: if_splits dest: first_valid_ok)

lemma extract_arxiv_id_valid:
  "extract_arxiv_id t = Some v \<Longrightarrow>
     re_match (seqs [Bol, arxiv_new, Eol]) False v \<noteq> None
     \<or> re_match (seqs [Bol, arxiv_old, Eol]) False v \<noteq> None"
  by (auto simp: extract_arxiv_id_def split: if_splits dest: first_valid_ok)

lemma extract_none_on_empty:
  "extract_doi [] = None" "extract_pmid [] = None" "extract_pmcid [] = None"
  "extract_arxiv_id [] = None" "extract_isbn [] = None"
  by (simp_all add: extract_doi_def extract_pmid_def extract_pmcid_def extract_arxiv_id_def
        extract_isbn_def)

end
